theory Spec2Isabelle
  imports Main "HOL-Library.Word" "HOL-Library.Sublist" "HOL-Library.AList"
begin

unbundle bit_operations_syntax

section \<open>Go strings as byte lists\<close>

text \<open>
  A Go \<open>string\<close> is a sequence of bytes; it is modelled as \<^typ>\<open>string\<close>, a list of
  8-bit characters. The functions of package \<open>strings\<close> used by the repository are
  written out below, on bytes, after their Go implementation.
\<close>

text \<open>
  \<open>unicode.IsSpace\<close> holds of the code points U+0009..U+000D, U+0020, U+0085, U+00A0,
  U+1680, U+2000..U+200A, U+2028, U+2029, U+202F, U+205F and U+3000. \<open>ws_seqs\<close> lists
  their UTF-8 encodings. A byte sequence that is not valid UTF-8 decodes to U+FFFD, which
  is not a space, so a string starts (ends) with a space exactly when one of these
  sequences is a prefix (suffix) of it.
\<close>

definition ws_seqs :: "string list" where
  "ws_seqs =
    [[CHR 0x09], [CHR 0x0A], [CHR 0x0B], [CHR 0x0C], [CHR 0x0D], [CHR 0x20],
     [CHR 0xC2, CHR 0x85], [CHR 0xC2, CHR 0xA0],
     [CHR 0xE1, CHR 0x9A, CHR 0x80],
     [CHR 0xE2, CHR 0x80, CHR 0x80], [CHR 0xE2, CHR 0x80, CHR 0x81],
     [CHR 0xE2, CHR 0x80, CHR 0x82], [CHR 0xE2, CHR 0x80, CHR 0x83],
     [CHR 0xE2, CHR 0x80, CHR 0x84], [CHR 0xE2, CHR 0x80, CHR 0x85],
     [CHR 0xE2, CHR 0x80, CHR 0x86], [CHR 0xE2, CHR 0x80, CHR 0x87],
     [CHR 0xE2, CHR 0x80, CHR 0x88], [CHR 0xE2, CHR 0x80, CHR 0x89],
     [CHR 0xE2, CHR 0x80, CHR 0x8A],
     [CHR 0xE2, CHR 0x80, CHR 0xA8], [CHR 0xE2, CHR 0x80, CHR 0xA9],
     [CHR 0xE2, CHR 0x80, CHR 0xAF],
     [CHR 0xE2, CHR 0x81, CHR 0x9F],
     [CHR 0xE3, CHR 0x80, CHR 0x80]]"

text \<open>The width of the space at the head (at the end) of a string, if there is one.\<close>

definition ws_prefix :: "string \<Rightarrow> nat option" where
  "ws_prefix s = map_option length (find (\<lambda>w. prefix w s) ws_seqs)"

definition ws_suffix :: "string \<Rightarrow> nat option" where
  "ws_suffix s = map_option length (find (\<lambda>w. suffix w s) ws_seqs)"

lemma ws_seqs_length: "w \<in> set ws_seqs \<Longrightarrow> 0 < length w"
  by (auto simp: ws_seqs_def)

lemma find_SomeD: "find P xs = Some x \<Longrightarrow> x \<in> set xs \<and> P x"
  by (induction xs) (auto split: if_splits)

lemma ws_prefix_pos: "ws_prefix s = Some n \<Longrightarrow> 0 < n \<and> n \<le> length s"
  by (auto simp: ws_prefix_def dest!: find_SomeD dest: ws_seqs_length prefix_length_le)

lemma ws_suffix_pos: "ws_suffix s = Some n \<Longrightarrow> 0 < n \<and> n \<le> length s"
  by (auto simp: ws_suffix_def dest!: find_SomeD dest: ws_seqs_length suffix_length_le)

text \<open>\<open>strings.TrimLeftFunc(s, unicode.IsSpace)\<close> and \<open>strings.TrimRightFunc\<close>.\<close>

function TrimLeft :: "string \<Rightarrow> string" where
  "TrimLeft s = (case ws_prefix s of None \<Rightarrow> s | Some n \<Rightarrow> TrimLeft (drop n s))"
  by pat_completeness auto
termination
  by (relation "measure length") (auto dest: ws_prefix_pos)

function TrimRight :: "string \<Rightarrow> string" where
  "TrimRight s =
     (case ws_suffix s of None \<Rightarrow> s | Some n \<Rightarrow> TrimRight (take (length s - n) s))"
  by pat_completeness auto
termination
  by (relation "measure length") (auto dest: ws_suffix_pos)

declare TrimLeft.simps [simp del] TrimRight.simps [simp del]

text \<open>\<open>strings.TrimSpace\<close>: leading spaces are removed, then trailing ones.\<close>

definition TrimSpace :: "string \<Rightarrow> string" where
  "TrimSpace s = TrimRight (TrimLeft s)"

text \<open>\<open>strings.HasPrefix\<close> is \<^const>\<open>prefix\<close>. \<open>strings.Index\<close>, with \<open>None\<close> for -1.\<close>

fun Index :: "string \<Rightarrow> string \<Rightarrow> nat option" where
  "Index [] sep = (if sep = [] then Some 0 else None)"
| "Index (c # cs) sep =
     (if prefix sep (c # cs) then Some 0 else map_option Suc (Index cs sep))"

definition Contains :: "string \<Rightarrow> string \<Rightarrow> bool" where
  "Contains s sub = (Index s sub \<noteq> None)"

lemma Index_bound: "Index s sep = Some i \<Longrightarrow> i + length sep \<le> length s"
  by (induction s arbitrary: i) (auto split: if_splits dest: prefix_length_le)

text \<open>
  \<open>strings.ReplaceAll(s, old, new)\<close> for a non-empty \<open>old\<close>: the non-overlapping
  occurrences of \<open>old\<close>, found from the left, are replaced. Every call in the repository
  passes a literal of one or two bytes as \<open>old\<close>; for an empty \<open>old\<close> (where Go inserts
  \<open>new\<close> around every code point) the model returns \<open>s\<close>.
\<close>

function ReplaceAll :: "string \<Rightarrow> string \<Rightarrow> string \<Rightarrow> string" where
  "ReplaceAll [] old new = []"
| "ReplaceAll (c # cs) old new =
     (if old \<noteq> [] \<and> prefix old (c # cs)
      then new @ ReplaceAll (drop (length old) (c # cs)) old new
      else c # ReplaceAll cs old new)"
  by pat_completeness auto
termination
  by (relation "measure (\<lambda>(s, old, new). length s)") (auto simp: Suc_le_eq)

text \<open>
  \<open>strings.SplitN(s, sep, n)\<close> for \<open>n \<ge> 0\<close> and \<open>strings.Split(s, sep)\<close>, for a
  non-empty separator (the repository splits at \<open>" "\<close>, \<open>","\<close> and \<open>"="\<close>).
\<close>

fun SplitN :: "string \<Rightarrow> string \<Rightarrow> nat \<Rightarrow> string list" where
  "SplitN s sep 0 = []"
| "SplitN s sep (Suc n) =
     (if n = 0 then [s]
      else case Index s sep of
             None \<Rightarrow> [s]
           | Some i \<Rightarrow> take i s # SplitN (drop (i + length sep) s) sep n)"

function Split :: "string \<Rightarrow> string \<Rightarrow> string list" where
  "Split s sep =
     (if sep = [] then map (\<lambda>c. [c]) s
      else case Index s sep of
             None \<Rightarrow> [s]
           | Some i \<Rightarrow> take i s # Split (drop (i + length sep) s) sep)"
  by pat_completeness auto
termination
proof (relation "measure (\<lambda>(s, sep). length s)", goal_cases)
  case 1
  show ?case by simp
next
  case (2 s sep i)
  from 2 have "i + length sep \<le> length s"
    by (auto dest: Index_bound)
  with 2 show ?case by (cases sep) auto
qed

declare Split.simps [simp del]

text \<open>\<open>strings.Join\<close>.\<close>

fun Join :: "string list \<Rightarrow> string \<Rightarrow> string" where
  "Join [] sep = []"
| "Join [x] sep = x"
| "Join (x # y # ys) sep = x @ sep @ Join (y # ys) sep"

section \<open>Numbers as text\<close>

text \<open>
  \<open>fmt.Sprintf("%d", n)\<close> and \<open>fmt.Sprintf("%x", n)\<close> for an unsigned \<open>n\<close>; the digits
  are taken from a table, as in package \<open>fmt\<close>.
\<close>

definition digit_char :: "int \<Rightarrow> char" where
  "digit_char d = ''0123456789abcdef'' ! nat d"

function digits_of :: "int \<Rightarrow> int \<Rightarrow> string" where
  "digits_of b n =
     (if b < 2 \<or> n < b then [digit_char n]
      else digits_of b (n div b) @ [digit_char (n mod b)])"
  by pat_completeness auto
termination
  by (relation "measure (\<lambda>(b, n). nat n)") (auto simp: int_div_less_self)

declare digits_of.simps [simp del]

definition fmt_d :: "32 word \<Rightarrow> string" where
  "fmt_d m = digits_of 10 (uint m)"

definition fmt_x :: "32 word \<Rightarrow> string" where
  "fmt_x m = digits_of 16 (uint m)"

section \<open>Event masks (types.go)\<close>

text \<open>
  The mask constants are those of Go's package \<open>syscall\<close> on Linux, which are the
  kernel's values of \<open>inotify.h\<close>.
\<close>

definition InAccess :: "32 word" where "InAccess = 0x1"
definition InModify :: "32 word" where "InModify = 0x2"
definition InAttrib :: "32 word" where "InAttrib = 0x4"
definition InCloseWrite :: "32 word" where "InCloseWrite = 0x8"
definition InCloseNowrite :: "32 word" where "InCloseNowrite = 0x10"
definition InOpen :: "32 word" where "InOpen = 0x20"
definition InMovedFrom :: "32 word" where "InMovedFrom = 0x40"
definition InMovedTo :: "32 word" where "InMovedTo = 0x80"
definition InCreate :: "32 word" where "InCreate = 0x100"
definition InDelete :: "32 word" where "InDelete = 0x200"
definition InDeleteSelf :: "32 word" where "InDeleteSelf = 0x400"
definition InMoveSelf :: "32 word" where "InMoveSelf = 0x800"
definition InUnmount :: "32 word" where "InUnmount = 0x2000"
definition InQOverflow :: "32 word" where "InQOverflow = 0x4000"
definition InIgnored :: "32 word" where "InIgnored = 0x8000"
definition InOnlydir :: "32 word" where "InOnlydir = 0x1000000"
definition InDontFollow :: "32 word" where "InDontFollow = 0x2000000"
definition InExclUnlink :: "32 word" where "InExclUnlink = 0x4000000"
definition InMaskAdd :: "32 word" where "InMaskAdd = 0x20000000"
definition InIsdir :: "32 word" where "InIsdir = 0x40000000"
definition InOneshot :: "32 word" where "InOneshot = 0x80000000"
definition InAllEvents :: "32 word" where "InAllEvents = 0xfff"
definition InMove :: "32 word" where "InMove = InMovedFrom OR InMovedTo"
definition InClose :: "32 word" where "InClose = InCloseWrite OR InCloseNowrite"

lemmas mask_defs =
  InAccess_def InModify_def InAttrib_def InCloseWrite_def InCloseNowrite_def InOpen_def
  InMovedFrom_def InMovedTo_def InCreate_def InDelete_def InDeleteSelf_def InMoveSelf_def
  InUnmount_def InQOverflow_def InIgnored_def InOnlydir_def InDontFollow_def
  InExclUnlink_def InMaskAdd_def InIsdir_def InOneshot_def InAllEvents_def InMove_def
  InClose_def

text \<open>\<open>EventMaskMap\<close> and \<open>ReverseEventMaskMap\<close>, as association lists in declaration order.\<close>

definition EventMaskMap :: "(string \<times> 32 word) list" where
  "EventMaskMap =
    [(''IN_ACCESS'', InAccess), (''IN_MODIFY'', InModify), (''IN_ATTRIB'', InAttrib),
     (''IN_CLOSE_WRITE'', InCloseWrite), (''IN_CLOSE_NOWRITE'', InCloseNowrite),
     (''IN_OPEN'', InOpen), (''IN_MOVED_FROM'', InMovedFrom), (''IN_MOVED_TO'', InMovedTo),
     (''IN_CREATE'', InCreate), (''IN_DELETE'', InDelete),
     (''IN_DELETE_SELF'', InDeleteSelf), (''IN_MOVE_SELF'', InMoveSelf),
     (''IN_UNMOUNT'', InUnmount), (''IN_Q_OVERFLOW'', InQOverflow),
     (''IN_IGNORED'', InIgnored), (''IN_ONLYDIR'', InOnlydir),
     (''IN_DONT_FOLLOW'', InDontFollow), (''IN_EXCL_UNLINK'', InExclUnlink),
     (''IN_MASK_ADD'', InMaskAdd), (''IN_ISDIR'', InIsdir), (''IN_ONESHOT'', InOneshot),
     (''IN_ALL_EVENTS'', InAllEvents), (''IN_MOVE'', InMove), (''IN_CLOSE'', InClose)]"

definition ReverseEventMaskMap :: "(32 word \<times> string) list" where
  "ReverseEventMaskMap =
    [(InAccess, ''IN_ACCESS''), (InModify, ''IN_MODIFY''), (InAttrib, ''IN_ATTRIB''),
     (InCloseWrite, ''IN_CLOSE_WRITE''), (InCloseNowrite, ''IN_CLOSE_NOWRITE''),
     (InOpen, ''IN_OPEN''), (InMovedFrom, ''IN_MOVED_FROM''), (InMovedTo, ''IN_MOVED_TO''),
     (InCreate, ''IN_CREATE''), (InDelete, ''IN_DELETE''),
     (InDeleteSelf, ''IN_DELETE_SELF''), (InMoveSelf, ''IN_MOVE_SELF''),
     (InUnmount, ''IN_UNMOUNT''), (InQOverflow, ''IN_Q_OVERFLOW''),
     (InIgnored, ''IN_IGNORED''), (InOnlydir, ''IN_ONLYDIR''),
     (InDontFollow, ''IN_DONT_FOLLOW''), (InExclUnlink, ''IN_EXCL_UNLINK''),
     (InMaskAdd, ''IN_MASK_ADD''), (InIsdir, ''IN_ISDIR''), (InOneshot, ''IN_ONESHOT''),
     (InAllEvents, ''IN_ALL_EVENTS'')]"

section \<open>Entries (types.go)\<close>

record EntryOptions =
  NoLoop :: bool
  Recursive :: bool
  DotDirs :: bool

record IncronEntry =
  Path :: string
  Mask :: "32 word"
  Command :: string
  Options :: EntryOptions
  LineNumber :: int

subsection \<open>ExpandCommand\<close>

text \<open>
  \<open>eventMaskToText\<close> ranges over the Go map \<open>ReverseEventMaskMap\<close>, whose iteration
  order is not fixed; the order of one run is the parameter \<open>iter\<close>, a permutation of the
  map's entries.
\<close>

definition eventMaskToText :: "(32 word \<times> string) list \<Rightarrow> 32 word \<Rightarrow> string" where
  "eventMaskToText iter m =
     (let parts = map snd (filter (\<lambda>(flag, name). m AND flag \<noteq> 0) iter)
      in if parts = [] then ''0x'' @ fmt_x m else Join parts '','')"

definition ExpandCommand ::
  "(32 word \<times> string) list \<Rightarrow> IncronEntry \<Rightarrow> string \<Rightarrow> string \<Rightarrow> 32 word \<Rightarrow> string" where
  "ExpandCommand iter e watchPath filename eventMask =
     (let cmd = Command e;
          cmd = ReplaceAll cmd ''$$'' ''$'';
          cmd = ReplaceAll cmd ''$@'' watchPath;
          cmd = ReplaceAll cmd ''$#'' filename;
          cmd = ReplaceAll cmd ''$%'' (eventMaskToText iter eventMask);
          cmd = ReplaceAll cmd ''$&'' (fmt_d eventMask)
      in cmd)"

subsection \<open>Parsing numbers\<close>

text \<open>
  \<open>strconv.ParseUint(s, base, 32)\<close> with an explicit base of 10 or 16: no sign, no prefix
  and no underscore is accepted, the empty string is a syntax error, and a value above
  \<open>2^32 - 1\<close> is a range error. The callers test only whether the error is nil.
\<close>

definition digit_val :: "char \<Rightarrow> int option" where
  "digit_val c =
     (let n = (of_char c :: int)
      in if 48 \<le> n \<and> n \<le> 57 then Some (n - 48)
         else if 97 \<le> n \<and> n \<le> 122 then Some (n - 87)
         else if 65 \<le> n \<and> n \<le> 90 then Some (n - 55)
         else None)"

fun parse_digits :: "int \<Rightarrow> int \<Rightarrow> string \<Rightarrow> int option" where
  "parse_digits b acc [] = Some acc"
| "parse_digits b acc (c # cs) =
     (case digit_val c of
        None \<Rightarrow> None
      | Some d \<Rightarrow> if b \<le> d then None else parse_digits b (acc * b + d) cs)"

definition ParseUint32 :: "string \<Rightarrow> int \<Rightarrow> 32 word option" where
  "ParseUint32 s b =
     (if s = [] then None
      else case parse_digits b 0 s of
             None \<Rightarrow> None
           | Some n \<Rightarrow> if n < 2 ^ 32 then Some (word_of_int n) else None)"

definition parseNumericMask :: "string \<Rightarrow> 32 word option" where
  "parseNumericMask s =
     (if prefix ''0x'' s \<or> prefix ''0X'' s then ParseUint32 (drop 2 s) 16
      else ParseUint32 s 10)"

subsection \<open>ParseEntry\<close>

text \<open>An error value for each \<open>fmt.Errorf\<close> of the package, with its arguments.\<close>

datatype error =
    InvalidFormat int
  | LineError int error
  | UnknownEventMask string
  | NoValidEventMask
  | InvalidOptionFormat string
  | InvalidOptionValue string string
  | UnknownOption string
  | PathNotAbsolute string
  | EmptyCommand
  | ZeroMask
  | OpenError
  | ScanError
  | AllowFileError error
  | DenyFileError error
  | TableOpenError string
  | TableLineError string error
  | TableReadError string
  | AlreadyWatched string
  | StatError string
  | AddWatchError string
  | WalkError
  | RecursiveSetupError error
  | NotWatched string
  | WdNotFound int
  | RmWatchError
  | MaxConcurrentReached int
  | LoopPrevention string
  | EmptyCommandLine
  | CredentialError string

definition parseBool :: "string \<Rightarrow> string \<Rightarrow> error + bool" where
  "parseBool key v =
     (if v = ''true'' then Inr True
      else if v = ''false'' then Inr False
      else Inl (InvalidOptionValue key v))"

definition parseOption :: "string \<Rightarrow> EntryOptions \<Rightarrow> error + EntryOptions" where
  "parseOption optStr opts =
     (let parts = SplitN optStr ''='' 2
      in if length parts \<noteq> 2 then Inl (InvalidOptionFormat optStr)
         else let key = TrimSpace (parts ! 0); v = TrimSpace (parts ! 1)
              in if key = ''loopable'' then
                   (case parseBool key v of
                      Inl e \<Rightarrow> Inl e | Inr b \<Rightarrow> Inr (opts\<lparr>NoLoop := \<not> b\<rparr>))
                 else if key = ''recursive'' then
                   (case parseBool key v of
                      Inl e \<Rightarrow> Inl e | Inr b \<Rightarrow> Inr (opts\<lparr>Recursive := b\<rparr>))
                 else if key = ''dotdirs'' then
                   (case parseBool key v of
                      Inl e \<Rightarrow> Inl e | Inr b \<Rightarrow> Inr (opts\<lparr>DotDirs := b\<rparr>))
                 else Inl (UnknownOption key))"

text \<open>The loop of \<open>parseMask\<close> over the comma-separated parts.\<close>

fun parseMask_parts ::
  "string list \<Rightarrow> 32 word \<Rightarrow> EntryOptions \<Rightarrow> error + (32 word \<times> EntryOptions)" where
  "parseMask_parts [] m opts = Inr (m, opts)"
| "parseMask_parts (p # ps) m opts =
     (let part = TrimSpace p
      in if Contains part ''='' then
           (case parseOption part opts of
              Inl e \<Rightarrow> Inl e
            | Inr opts' \<Rightarrow> parseMask_parts ps m opts')
         else case map_of EventMaskMap part of
                Some eventMask \<Rightarrow> parseMask_parts ps (m OR eventMask) opts
              | None \<Rightarrow>
                  (case parseNumericMask part of
                     Some num \<Rightarrow> parseMask_parts ps (m OR num) opts
                   | None \<Rightarrow> Inl (UnknownEventMask part)))"

definition parseMask :: "string \<Rightarrow> EntryOptions \<Rightarrow> error + (32 word \<times> EntryOptions)" where
  "parseMask maskStr opts =
     (case parseMask_parts (Split maskStr '','') 0 opts of
        Inl e \<Rightarrow> Inl e
      | Inr (m, opts') \<Rightarrow> if m = 0 then Inl NoValidEventMask else Inr (m, opts'))"

definition default_options :: EntryOptions where
  "default_options = \<lparr>NoLoop = True, Recursive = True, DotDirs = False\<rparr>"

text \<open>
  \<open>ParseEntry\<close> returns \<open>(nil, nil)\<close> for an empty or comment line: \<open>Inr None\<close>.
\<close>

definition ParseEntry :: "string \<Rightarrow> int \<Rightarrow> error + IncronEntry option" where
  "ParseEntry line0 lineNumber =
     (let line = TrimSpace line0
      in if line = [] \<or> prefix ''#'' line then Inr None
         else let parts = SplitN line '' '' 3
              in if length parts < 3 then Inl (InvalidFormat lineNumber)
                 else case parseMask (parts ! 1) default_options of
                        Inl e \<Rightarrow> Inl (LineError lineNumber e)
                      | Inr (m, opts) \<Rightarrow>
                          Inr (Some \<lparr>Path = parts ! 0, Mask = m, Command = parts ! 2,
                                     Options = opts, LineNumber = lineNumber\<rparr>))"

subsection \<open>Rendering\<close>

text \<open>
  The loop of \<open>MaskToString\<close>: every flag of the list is a key of
  \<open>ReverseEventMaskMap\<close>; the lookup is kept as in the source.
\<close>

definition render_flags :: "32 word list" where
  "render_flags =
    [InAccess, InModify, InAttrib, InCloseWrite, InCloseNowrite,
     InOpen, InMovedFrom, InMovedTo, InCreate, InDelete,
     InDeleteSelf, InMoveSelf, InUnmount, InQOverflow, InIgnored,
     InOnlydir, InDontFollow, InExclUnlink, InMaskAdd, InIsdir, InOneshot]"

fun MaskToString_loop :: "32 word list \<Rightarrow> 32 word \<Rightarrow> string list \<Rightarrow> string list \<times> 32 word" where
  "MaskToString_loop [] m parts = (parts, m)"
| "MaskToString_loop (flag # flags) m parts =
     (if m AND flag \<noteq> 0 then
        (case map_of ReverseEventMaskMap flag of
           Some name \<Rightarrow> MaskToString_loop flags (m AND NOT flag) (parts @ [name])
         | None \<Rightarrow> MaskToString_loop flags m parts)
      else MaskToString_loop flags m parts)"

definition MaskToString :: "IncronEntry \<Rightarrow> string" where
  "MaskToString e =
     (if Mask e = InAllEvents then ''IN_ALL_EVENTS''
      else let (parts, m) = MaskToString_loop render_flags (Mask e) [];
               parts = (if m \<noteq> 0 then parts @ [''0x'' @ fmt_x m] else parts)
           in if parts = [] then ''0'' else Join parts '','')"

definition String :: "IncronEntry \<Rightarrow> string" where
  "String e =
     (let maskStr = MaskToString e;
          opts = (if \<not> NoLoop (Options e) then [''loopable=true''] else []) @
                 (if \<not> Recursive (Options e) then [''recursive=false''] else []) @
                 (if DotDirs (Options e) then [''dotdirs=true''] else []);
          maskStr = (if opts \<noteq> [] then maskStr @ '','' @ Join opts '','' else maskStr)
      in Path e @ '' '' @ maskStr @ '' '' @ Command e)"

subsection \<open>Regular expressions\<close>















subsection \<open>MatchesPath\<close>


section \<open>Tables (table.go)\<close>

text \<open>
  The file system as the package sees it: \<open>stat_ok p\<close> says that \<open>os.Stat(p)\<close> returns
  no error; \<open>open_file p\<close> is the outcome of \<open>os.Open(p)\<close> followed by a
  \<open>bufio.Scanner\<close> over the file: the file does not exist, the open fails otherwise, or
  the scanner yields lines and then stops, with an error (\<open>True\<close>) or at the end of the
  file.
\<close>

datatype open_result = OpenNotExist | OpenFailed | Opened "string list" bool

record filesystem =
  stat_ok :: "string \<Rightarrow> bool"
  open_file :: "string \<Rightarrow> open_result"

definition DefaultAllowFile :: string where
  "DefaultAllowFile = ''/etc/eventcron.allow''"
definition DefaultDenyFile :: string where
  "DefaultDenyFile = ''/etc/eventcron.deny''"

text \<open>\<open>filepath.Base\<close> on Unix.\<close>

definition Base :: "string \<Rightarrow> string" where
  "Base path =
     (if path = [] then ''.''
      else let p = rev (dropWhile (\<lambda>c. c = CHR ''/'') (rev path));
               q = rev (takeWhile (\<lambda>c. c \<noteq> CHR ''/'') (rev p))
           in if q = [] then ''/'' else q)"





section \<open>Permissions (permissions.go)\<close>

text \<open>The scanner loop of \<open>userInFile\<close>.\<close>

fun userInLines :: "string \<Rightarrow> string list \<Rightarrow> bool" where
  "userInLines username [] = False"
| "userInLines username (l # ls) =
     (let line = TrimSpace l
      in if line = [] \<or> prefix ''#'' line then userInLines username ls
         else if line = username then True
         else userInLines username ls)"

definition userInFile :: "filesystem \<Rightarrow> string \<Rightarrow> string \<Rightarrow> bool \<times> error option" where
  "userInFile fs username filePath =
     (case open_file fs filePath of
        OpenNotExist \<Rightarrow> (False, None)
      | OpenFailed \<Rightarrow> (False, Some OpenError)
      | Opened ls err \<Rightarrow>
          if userInLines username ls then (True, None)
          else (False, if err then Some ScanError else None))"

definition fileExists :: "filesystem \<Rightarrow> string \<Rightarrow> bool" where
  "fileExists fs filePath = stat_ok fs filePath"

definition CheckUserPermission :: "filesystem \<Rightarrow> string \<Rightarrow> bool \<times> error option" where
  "CheckUserPermission fs username =
     (let allowExists = fileExists fs DefaultAllowFile;
          denyExists = fileExists fs DefaultDenyFile
      in if allowExists then
           (case userInFile fs username DefaultAllowFile of
              (allowed, Some err) \<Rightarrow> (False, Some (AllowFileError err))
            | (allowed, None) \<Rightarrow> (allowed, None))
         else if denyExists then
           (case userInFile fs username DefaultDenyFile of
              (denied, Some err) \<Rightarrow> (False, Some (DenyFileError err))
            | (denied, None) \<Rightarrow> (\<not> denied, None))
         else (True, None))"

text \<open>
  The policy in the specification's words: a user is listed in a file when one of its
  lines, trimmed, is not empty, is not a comment and is the user's name.
\<close>

definition listed :: "string \<Rightarrow> string list \<Rightarrow> bool" where
  "listed username ls =
     list_ex (\<lambda>l. TrimSpace l \<noteq> [] \<and> \<not> prefix ''#'' (TrimSpace l) \<and> TrimSpace l = username) ls"

section \<open>Paths (path/filepath on Unix)\<close>

text \<open>
  \<open>filepath.Clean\<close> works on the elements between slashes: empty elements and \<open>.\<close> are
  dropped, \<open>..\<close> removes the element before it (at the root it is dropped; in a relative
  path a leading run of \<open>..\<close> is kept), and the result is \<open>.\<close> when nothing is left.
\<close>

definition clean_step :: "bool \<Rightarrow> string \<Rightarrow> string list \<Rightarrow> string list" where
  "clean_step rooted e acc =
     (if e = [] \<or> e = ''.'' then acc
      else if e = ''..'' then
        (if acc \<noteq> [] \<and> last acc \<noteq> ''..'' then butlast acc
         else if rooted then acc
         else acc @ [''..''])
      else acc @ [e])"

definition Clean :: "string \<Rightarrow> string" where
  "Clean path =
     (if path = [] then ''.''
      else let rooted = (hd path = CHR ''/'');
               elems = fold (clean_step rooted) (Split path ''/'') [];
               out = (if rooted then ''/'' else []) @ Join elems ''/''
           in if out = [] then ''.'' else out)"

text \<open>\<open>filepath.Join(a, b)\<close>: empty elements are ignored, the rest is joined and cleaned.\<close>

definition Join2 :: "string \<Rightarrow> string \<Rightarrow> string" where
  "Join2 a b =
     (if a \<noteq> [] then Clean (a @ ''/'' @ b)
      else if b \<noteq> [] then Clean b
      else [])"

section \<open>The watch engine (watcher.go)\<close>

record InotifyEvent =
  Path_ev :: string
  Name_ev :: string
  Mask_ev :: "32 word"
  Cookie_ev :: "32 word"
  WatchDir_ev :: string

record WatchInfo =
  Path_w :: string
  Mask_w :: "32 word"
  Entry_w :: "IncronEntry option"
  Recursive_w :: bool
  DotDirs_w :: bool

text \<open>
  The two indices of the \<open>Watcher\<close>. Its inotify descriptor, its channels and its lock
  are not modelled; every function below is one critical section of the source.
\<close>

record Watcher =
  watches :: "int \<Rightarrow> WatchInfo option"
  pathWatches :: "string \<Rightarrow> int option"

text \<open>
  What \<open>filepath.Walk\<close> meets below a root: a file (anything that \<open>Lstat\<close> does not
  report as a directory), a directory with the entries \<open>readDirNames\<close> returns (or its
  failure, \<open>True\<close>), or a name whose \<open>Lstat\<close> fails.
\<close>

datatype fstree = FsFile | FsDir bool "(string \<times> fstree) list" | FsLstatErr

text \<open>
  The operating system, as the answers it gives: \<open>os_stat p\<close> is \<open>os.Stat(p)\<close> (\<open>None\<close>
  for an error, else whether \<open>p\<close> is a directory), \<open>lstat_walk p\<close> the tree that
  \<open>filepath.Walk(p, _)\<close> finds, \<open>inotify_add_watch\<close> and \<open>inotify_rm_watch\<close> the two
  system calls (\<open>None\<close> and \<open>False\<close> for an error).
\<close>

record kernel =
  os_stat :: "string \<Rightarrow> bool option"
  lstat_walk :: "string \<Rightarrow> fstree"
  inotify_add_watch :: "string \<Rightarrow> 32 word \<Rightarrow> int option"
  inotify_rm_watch :: "int \<Rightarrow> bool"

definition addSingleWatch :: "kernel \<Rightarrow> string \<Rightarrow> 32 word \<Rightarrow> error + int" where
  "addSingleWatch k path m =
     (case inotify_add_watch k path m of
        None \<Rightarrow> Inl (AddWatchError path)
      | Some wd \<Rightarrow> Inr wd)"

definition removeWatch :: "kernel \<Rightarrow> Watcher \<Rightarrow> int \<Rightarrow> error option \<times> Watcher" where
  "removeWatch k w wd =
     (case watches w wd of
        None \<Rightarrow> (Some (WdNotFound wd), w)
      | Some watchInfo \<Rightarrow>
          if \<not> inotify_rm_watch k wd then (Some RmWatchError, w)
          else (None, w\<lparr>watches := (watches w)(wd := None),
                         pathWatches := (pathWatches w)(Path_w watchInfo := None)\<rparr>))"

definition RemoveWatch :: "kernel \<Rightarrow> Watcher \<Rightarrow> string \<Rightarrow> error option \<times> Watcher" where
  "RemoveWatch k w path =
     (case pathWatches w path of
        None \<Rightarrow> (Some (NotWatched path), w)
      | Some wd \<Rightarrow> removeWatch k w wd)"

text \<open>What a \<open>WalkFunc\<close> returns: nil, \<open>filepath.SkipDir\<close>, or another error.\<close>

datatype walk_result = WalkNil | WalkSkipDir | WalkErr

text \<open>
  The function that \<open>addRecursiveWatches\<close> hands to \<open>filepath.Walk\<close>; its arguments
  \<open>info.IsDir()\<close> and \<open>err \<noteq> nil\<close> are the two booleans.
\<close>

definition walkFn ::
  "kernel \<Rightarrow> string \<Rightarrow> 32 word \<Rightarrow> bool \<Rightarrow> string \<Rightarrow> bool \<Rightarrow> bool \<Rightarrow> Watcher
     \<Rightarrow> walk_result \<times> Watcher" where
  "walkFn k rootPath m includeDotDirs path isDir err w =
     (if err then (WalkErr, w)
      else if \<not> isDir then (WalkNil, w)
      else if path = rootPath then (WalkNil, w)
      else if \<not> includeDotDirs \<and> prefix ''.'' (Base path) then (WalkSkipDir, w)
      else case addSingleWatch k path m of
             Inl e \<Rightarrow> (WalkNil, w)
           | Inr wd \<Rightarrow>
               (WalkNil,
                w\<lparr>watches := (watches w)(wd \<mapsto>
                     \<lparr>Path_w = path, Mask_w = m, Entry_w = None, Recursive_w = True,
                      DotDirs_w = includeDotDirs\<rparr>),
                  pathWatches := (pathWatches w)(path \<mapsto> wd)\<rparr>))"

definition is_dir :: "fstree \<Rightarrow> bool" where
  "is_dir t = (case t of FsDir rderr children \<Rightarrow> True | _ \<Rightarrow> False)"

text \<open>\<open>filepath.walk\<close> and its loop over the names of a directory.\<close>

fun walk ::
  "(string \<Rightarrow> bool \<Rightarrow> bool \<Rightarrow> Watcher \<Rightarrow> walk_result \<times> Watcher) \<Rightarrow> string \<Rightarrow> fstree \<Rightarrow> Watcher
     \<Rightarrow> walk_result \<times> Watcher"
and walk_names ::
  "(string \<Rightarrow> bool \<Rightarrow> bool \<Rightarrow> Watcher \<Rightarrow> walk_result \<times> Watcher) \<Rightarrow> string
     \<Rightarrow> (string \<times> fstree) list \<Rightarrow> Watcher \<Rightarrow> walk_result \<times> Watcher" where
  "walk fn path FsFile w = fn path False False w"
| "walk fn path FsLstatErr w = fn path False True w"
| "walk fn path (FsDir rderr children) w =
     (case fn path True rderr w of
        (r, w1) \<Rightarrow> if rderr \<or> r \<noteq> WalkNil then (r, w1) else walk_names fn path children w1)"
| "walk_names fn path [] w = (WalkNil, w)"
| "walk_names fn path ((name, t) # rest) w =
     (case walk fn (Join2 path name) t w of
        (r, w1) \<Rightarrow>
          if t = FsLstatErr then
            (if r \<noteq> WalkNil \<and> r \<noteq> WalkSkipDir then (r, w1) else walk_names fn path rest w1)
          else
            (if r \<noteq> WalkNil \<and> (\<not> is_dir t \<or> r \<noteq> WalkSkipDir) then (r, w1)
             else walk_names fn path rest w1))"

definition Walk ::
  "kernel \<Rightarrow> string \<Rightarrow> (string \<Rightarrow> bool \<Rightarrow> bool \<Rightarrow> Watcher \<Rightarrow> walk_result \<times> Watcher) \<Rightarrow> Watcher
     \<Rightarrow> walk_result \<times> Watcher" where
  "Walk k root fn w =
     (case walk fn root (lstat_walk k root) w of
        (r, w1) \<Rightarrow> (if r = WalkSkipDir then WalkNil else r, w1))"

definition addRecursiveWatches ::
  "kernel \<Rightarrow> Watcher \<Rightarrow> string \<Rightarrow> 32 word \<Rightarrow> bool \<Rightarrow> error option \<times> Watcher" where
  "addRecursiveWatches k w rootPath m includeDotDirs =
     (case Walk k rootPath (walkFn k rootPath m includeDotDirs) w of
        (r, w1) \<Rightarrow> (if r = WalkNil then None else Some WalkError, w1))"

definition AddWatch :: "kernel \<Rightarrow> Watcher \<Rightarrow> IncronEntry \<Rightarrow> error option \<times> Watcher" where
  "AddWatch k w entry =
     (let path = Path entry
      in if pathWatches w path \<noteq> None then (Some (AlreadyWatched path), w)
         else case os_stat k path of
                None \<Rightarrow> (Some (StatError path), w)
              | Some isDir \<Rightarrow>
                  (let watchInfo = \<lparr>Path_w = path, Mask_w = Mask entry, Entry_w = Some entry,
                                     Recursive_w = Recursive (Options entry),
                                     DotDirs_w = DotDirs (Options entry)\<rparr>
                   in case addSingleWatch k path (Mask entry) of
                        Inl e \<Rightarrow> (Some e, w)
                      | Inr wd \<Rightarrow>
                          (let w1 = w\<lparr>watches := (watches w)(wd \<mapsto> watchInfo),
                                       pathWatches := (pathWatches w)(path \<mapsto> wd)\<rparr>
                           in if isDir \<and> Recursive (Options entry) then
                                (case addRecursiveWatches k w1 path (Mask entry)
                                        (DotDirs (Options entry)) of
                                   (Some e, w2) \<Rightarrow>
                                     (Some (RecursiveSetupError e), snd (removeWatch k w2 wd))
                                 | (None, w2) \<Rightarrow> (None, w2))
                              else (None, w1))))"

subsection \<open>Decoding events\<close>

text \<open>
  A 32-bit field of the buffer at an offset. The source reads it through an unsafe
  pointer, in the byte order of the machine; the model reads little-endian, as on the
  platforms inotify and the spec's wire format are given for.
\<close>

definition rd32 :: "string \<Rightarrow> nat \<Rightarrow> 32 word" where
  "rd32 buffer i =
     of_char (buffer ! i) OR push_bit 8 (of_char (buffer ! (i + 1))) OR
     push_bit 16 (of_char (buffer ! (i + 2))) OR push_bit 24 (of_char (buffer ! (i + 3)))"

definition createEvent ::
  "Watcher \<Rightarrow> int \<Rightarrow> 32 word \<Rightarrow> 32 word \<Rightarrow> string \<Rightarrow> InotifyEvent option" where
  "createEvent w wd m cookie name =
     (case watches w wd of
        None \<Rightarrow> None
      | Some watchInfo \<Rightarrow>
          Some \<lparr>Path_ev = (if name \<noteq> [] then Join2 (Path_w watchInfo) name
                           else Path_w watchInfo),
                Name_ev = name, Mask_ev = m, Cookie_ev = cookie,
                WatchDir_ev = Path_w watchInfo\<rparr>)"

definition handleDirCreate :: "kernel \<Rightarrow> Watcher \<Rightarrow> int \<Rightarrow> string \<Rightarrow> Watcher" where
  "handleDirCreate k w wd name =
     (case watches w wd of
        None \<Rightarrow> w
      | Some watchInfo \<Rightarrow>
          if \<not> Recursive_w watchInfo then w
          else if \<not> DotDirs_w watchInfo \<and> prefix ''.'' name then w
          else let newPath = Join2 (Path_w watchInfo) name
               in case os_stat k newPath of
                    None \<Rightarrow> w
                  | Some isDir \<Rightarrow>
                      if \<not> isDir then w
                      else case addSingleWatch k newPath (Mask_w watchInfo) of
                             Inl e \<Rightarrow> w
                           | Inr newWd \<Rightarrow>
                               w\<lparr>watches := (watches w)(newWd \<mapsto>
                                    \<lparr>Path_w = newPath, Mask_w = Mask_w watchInfo,
                                     Entry_w = None, Recursive_w = True,
                                     DotDirs_w = DotDirs_w watchInfo\<rparr>),
                                 pathWatches := (pathWatches w)(newPath \<mapsto> newWd)\<rparr>)"

text \<open>
  The block of \<open>parseEvents\<close> under the comment \<open>Remove null terminator\<close>: the name
  is the name field, without its last byte when that byte is NUL.
\<close>

definition nameOfField :: "string \<Rightarrow> string" where
  "nameOfField nameBytes =
     (if nameBytes \<noteq> [] \<and> last nameBytes = CHR 0x00 then butlast nameBytes else nameBytes)"

text \<open>
  The loop of \<open>parseEvents\<close>, from an offset into the buffer. The result lists the
  events that \<open>createEvent\<close> builds, in order: these are the events offered to the event
  channel. Whether the channel takes an event or, being full, drops it, is decided by
  the reader of the channel and is outside this model.
\<close>

function parseEvents_loop ::
  "kernel \<Rightarrow> string \<Rightarrow> nat \<Rightarrow> Watcher \<Rightarrow> InotifyEvent list \<times> Watcher" where
  "parseEvents_loop k buffer offset w =
     (if \<not> offset < length buffer then ([], w)
      else if offset + 16 > length buffer then ([], w)
      else let wd = sint (rd32 buffer offset);
               m = rd32 buffer (offset + 4);
               cookie = rd32 buffer (offset + 8);
               nameLen = unat (rd32 buffer (offset + 12));
               offset1 = offset + 16
           in if nameLen > 0 \<and> offset1 + nameLen > length buffer then ([], w)
              else let nameBytes = take nameLen (drop offset1 buffer);
                       name = nameOfField nameBytes;
                       offset2 = offset1 + nameLen;
                       created = (case createEvent w wd m cookie name of
                                    None \<Rightarrow> [] | Some event \<Rightarrow> [event]);
                       w1 = (if m AND InCreate \<noteq> 0 \<and> m AND InIsdir \<noteq> 0
                             then handleDirCreate k w wd name else w)
                   in case parseEvents_loop k buffer offset2 w1 of
                        (events, w2) \<Rightarrow> (created @ events, w2))"
  by pat_completeness auto
termination
  by (relation "measure (\<lambda>(k, buffer, offset, w). length buffer - offset)") auto

declare parseEvents_loop.simps [simp del]

definition parseEvents :: "kernel \<Rightarrow> Watcher \<Rightarrow> string \<Rightarrow> InotifyEvent list \<times> Watcher" where
  "parseEvents k w buffer = parseEvents_loop k buffer 0 w"

section \<open>The executor (executor.go)\<close>

record RunningCommand =
  ID :: string
  Entry_rc :: IncronEntry
  Event_rc :: InotifyEvent
  Username_rc :: string

record ExecutionResult =
  ID_res :: string
  Success :: bool
  ExitCode :: int

text \<open>
  The executor. \<open>runningCommands\<close> is the Go map as an association list with distinct
  keys; \<open>mu\<close> says whether the mutex \<open>ce.mu\<close> is held. A Go mutex is not reentrant:
  \<open>Lock\<close> on a held mutex does not return until another goroutine unlocks it.
\<close>

record CommandExecutor =
  runningCommands :: "(string \<times> RunningCommand) list"
  mu :: bool
  maxConcurrent :: int
  currentCount :: int

definition NewCommandExecutor :: "int \<Rightarrow> CommandExecutor" where
  "NewCommandExecutor maxC =
     \<lparr>runningCommands = [], mu = False, maxConcurrent = maxC, currentCount = 0\<rparr>"

text \<open>
  What a call meets outside the executor: the order in which Go ranges over
  \<open>ReverseEventMaskMap\<close>, the clock, the user database (\<open>setupUserCredentials\<close>
  succeeds or not) and the outcome of running the child process.
\<close>

record exec_env =
  map_order :: "(32 word \<times> string) list"
  now :: int
  credentials_ok :: "string \<Rightarrow> bool"
  run_child :: "string list \<Rightarrow> bool \<times> int"

text \<open>A call returns a value, never returns, or ends the process with a fatal error.\<close>

datatype 'a outcome = Returns 'a | Blocked | Fatal

text \<open>\<open>strings.Fields\<close>: the maximal runs of bytes between spaces.\<close>

function Fields_from :: "string \<Rightarrow> string \<Rightarrow> string list" where
  "Fields_from cur s =
     (if s = [] then (if cur = [] then [] else [cur])
      else case ws_prefix s of
             Some n \<Rightarrow> (if cur = [] then [] else [cur]) @ Fields_from [] (drop n s)
           | None \<Rightarrow> Fields_from (cur @ [hd s]) (tl s))"
  by pat_completeness auto
termination
  by (relation "measure (\<lambda>(cur, s). length s)") (auto dest: ws_prefix_pos)

declare Fields_from.simps [simp del]

definition Fields :: "string \<Rightarrow> string list" where
  "Fields s = Fields_from [] s"

definition parseCommand :: "string \<Rightarrow> string list" where
  "parseCommand cmdStr =
     (let cmdStr = TrimSpace cmdStr
      in if cmdStr = [] then [] else Fields cmdStr)"

definition fmt_int :: "int \<Rightarrow> string" where
  "fmt_int n = (if n < 0 then ''-'' @ digits_of 10 (- n) else digits_of 10 n)"

definition generateCommandID :: "exec_env \<Rightarrow> IncronEntry \<Rightarrow> InotifyEvent \<Rightarrow> string" where
  "generateCommandID env entry event =
     ReplaceAll (Path entry) ''/'' ''_'' @ ''_'' @ Name_ev event @ ''_'' @
     fmt_d (Mask_ev event) @ ''_'' @ fmt_int (now env)"

text \<open>
  \<open>Execute\<close>. The mutex is taken on entry and released by the deferred \<open>Unlock\<close> when
  the function returns. After the child has run, the source takes the mutex again
  (\<open>ce.mu.Lock()\<close> in the clean-up) while the call still holds it.
\<close>

definition Execute ::
  "exec_env \<Rightarrow> CommandExecutor \<Rightarrow> IncronEntry \<Rightarrow> InotifyEvent \<Rightarrow> string
     \<Rightarrow> (error + ExecutionResult) outcome \<times> CommandExecutor" where
  "Execute env ce0 entry event username =
     (if mu ce0 then (Blocked, ce0)
      else let ce = ce0\<lparr>mu := True\<rparr>
           in if currentCount ce \<ge> maxConcurrent ce then
                (Returns (Inl (MaxConcurrentReached (maxConcurrent ce))), ce\<lparr>mu := False\<rparr>)
              else let id = generateCommandID env entry event
                   in if NoLoop (Options entry) \<and>
                         list_ex (\<lambda>(key, runningCmd).
                                    Path (Entry_rc runningCmd) = Path entry \<and>
                                    Username_rc runningCmd = username)
                                 (runningCommands ce) then
                        (Returns (Inl (LoopPrevention (Path entry))), ce\<lparr>mu := False\<rparr>)
                      else let expandedCmd = ExpandCommand (map_order env) entry
                                               (WatchDir_ev event) (Name_ev event) (Mask_ev event);
                               cmdParts = parseCommand expandedCmd
                           in if cmdParts = [] then
                                (Returns (Inl EmptyCommandLine), ce\<lparr>mu := False\<rparr>)
                              else let runningCmd = \<lparr>ID = id, Entry_rc = entry,
                                                      Event_rc = event, Username_rc = username\<rparr>
                                   in if username \<noteq> ''root'' \<and> username \<noteq> [] \<and>
                                         \<not> credentials_ok env username then
                                        (Returns (Inl (CredentialError username)),
                                         ce\<lparr>mu := False\<rparr>)
                                      else let ce1 = ce\<lparr>runningCommands :=
                                                          AList.update id runningCmd
                                                            (runningCommands ce),
                                                        currentCount := currentCount ce + 1\<rparr>;
                                               (ok, code) = run_child env cmdParts;
                                               result = \<lparr>ID_res = id, Success = ok,
                                                         ExitCode = code\<rparr>
                                           in if mu ce1 then (Blocked, ce1)
                                              else (Fatal,
                                                    ce1\<lparr>runningCommands :=
                                                          AList.delete id (runningCommands ce1),
                                                        currentCount := currentCount ce1 - 1\<rparr>))"

section \<open>Facts about trimming and splitting\<close>

lemma ws_prefix_None_iff: "ws_prefix s = None \<longleftrightarrow> (\<forall>w \<in> set ws_seqs. \<not> prefix w s)"
  by (auto simp: ws_prefix_def find_None_iff)

lemma ws_suffix_None_iff: "ws_suffix s = None \<longleftrightarrow> (\<forall>w \<in> set ws_seqs. \<not> suffix w s)"
  by (auto simp: ws_suffix_def find_None_iff)


lemma ws_suffix_SomeD: "ws_suffix s = Some n \<Longrightarrow> \<exists>w \<in> set ws_seqs. suffix w s \<and> length w = n"
  by (auto simp: ws_suffix_def dest!: find_SomeD)

lemma TrimLeft_no_ws [simp]: "ws_prefix (TrimLeft s) = None"
  by (induction s rule: TrimLeft.induct) (subst TrimLeft.simps, simp split: option.splits)

lemma TrimRight_no_ws [simp]: "ws_suffix (TrimRight s) = None"
  by (induction s rule: TrimRight.induct) (subst TrimRight.simps, simp split: option.splits)


lemma TrimRight_prefix: "prefix (TrimRight s) s"
proof (induction s rule: TrimRight.induct)
  case (1 s)
  show ?case
  proof (cases "ws_suffix s")
    case None
    then show ?thesis by (subst TrimRight.simps) simp
  next
    case (Some n)
    with 1 have "prefix (TrimRight (take (length s - n) s)) (take (length s - n) s)" by simp
    then have "prefix (TrimRight (take (length s - n) s)) s"
      using take_is_prefix prefix_order.trans by blast
    with Some show ?thesis by (subst TrimRight.simps) simp
  qed
qed

lemma TrimLeft_id: "ws_prefix s = None \<Longrightarrow> TrimLeft s = s"
  by (subst TrimLeft.simps) simp

lemma TrimRight_id: "ws_suffix s = None \<Longrightarrow> TrimRight s = s"
  by (subst TrimRight.simps) simp

lemma ws_prefix_of_prefix: "ws_prefix s = None \<Longrightarrow> prefix t s \<Longrightarrow> ws_prefix t = None"
  unfolding ws_prefix_None_iff using prefix_order.trans by blast

lemma ws_suffix_of_suffix: "ws_suffix s = None \<Longrightarrow> suffix t s \<Longrightarrow> ws_suffix t = None"
  unfolding ws_suffix_None_iff using suffix_order.trans by blast

lemma TrimSpace_no_ws: "ws_prefix (TrimSpace s) = None" "ws_suffix (TrimSpace s) = None"
  unfolding TrimSpace_def
  by (rule ws_prefix_of_prefix [OF TrimLeft_no_ws TrimRight_prefix], simp)

lemma TrimSpace_id: "ws_prefix s = None \<Longrightarrow> ws_suffix s = None \<Longrightarrow> TrimSpace s = s"
  by (simp add: TrimSpace_def TrimLeft_id TrimRight_id)




lemma Index_single:
  "Index s [c] = (if c \<in> set s then Some (length (takeWhile (\<lambda>x. x \<noteq> c) s)) else None)"
  by (induction s) auto

lemma SplitN_3:
  "SplitN l sep 3 =
     (case Index l sep of
        None \<Rightarrow> [l]
      | Some i \<Rightarrow>
          (case Index (drop (i + length sep) l) sep of
             None \<Rightarrow> [take i l, drop (i + length sep) l]
           | Some j \<Rightarrow> [take i l, take j (drop (i + length sep) l),
                        drop (j + length sep) (drop (i + length sep) l)]))"
  by (simp add: numeral_3_eq_3 split: option.splits)

lemma Index_append_single:
  "c \<notin> set p \<Longrightarrow> Index (p @ c # rest) [c] = Some (length p)"
  by (induction p) auto

lemma SplitN_3_fields:
  assumes "c \<notin> set p" "c \<notin> set m"
  shows "SplitN (p @ c # m @ c # rest) [c] 3 = [p, m, rest]"
  using assms by (simp add: SplitN_3 Index_append_single)

lemma SplitN_3_short:
  assumes "length (filter (\<lambda>x. x = c) l) < 2"
  shows "length (SplitN l [c] 3) < 3"
proof (cases "Index l [c]")
  case None
  then show ?thesis by (simp add: SplitN_3)
next
  case (Some i)
  then have i: "c \<in> set l" "i = length (takeWhile (\<lambda>x. x \<noteq> c) l)"
    by (auto simp: Index_single split: if_splits)
  define p where "p = takeWhile (\<lambda>x. x \<noteq> c) l"
  define r where "r = dropWhile (\<lambda>x. x \<noteq> c) l"
  have l: "l = p @ r" by (simp add: p_def r_def)
  from i(1) have "r \<noteq> []" by (auto simp: r_def dropWhile_eq_Nil_conv)
  moreover have "hd r = c" if "r \<noteq> []" using that hd_dropWhile [of "\<lambda>x. x \<noteq> c" l] by (auto simp: r_def)
  ultimately obtain r' where r: "r = c # r'" by (cases r) auto
  have "filter (\<lambda>x. x = c) p = []" by (auto simp: p_def filter_empty_conv dest: set_takeWhileD)
  with assms have "c \<notin> set r'" by (auto simp: l r filter_empty_conv)
  then have "Index r' [c] = None" by (simp add: Index_single)
  moreover have "i = length p" using i(2) by (simp add: p_def)
  then have "drop (i + 1) l = r'" by (simp add: l r)
  ultimately show ?thesis using Some by (simp add: SplitN_3)
qed

lemma Split_no_sep: "c \<notin> set s \<Longrightarrow> Split s [c] = [s]"
  by (subst Split.simps) (simp add: Index_single)

lemma Split_sep: "c \<notin> set p \<Longrightarrow> Split (p @ c # rest) [c] = p # Split rest [c]"
  by (subst Split.simps) (simp add: Index_append_single)

lemma Split_Join:
  "ts \<noteq> [] \<Longrightarrow> \<forall>t \<in> set ts. c \<notin> set t \<Longrightarrow> Split (Join ts [c]) [c] = ts"
proof (induction ts "[c]" rule: Join.induct)
  case 1
  then show ?case by simp
next
  case (2 x)
  then show ?case by (simp add: Split_no_sep)
next
  case (3 x y ys)
  then show ?case by (simp add: Split_sep)
qed


section \<open>Facts about ParseEntry\<close>


lemma two_seps_decomp:
  assumes two: "2 \<le> length (filter (\<lambda>x. x = c) l)"
  obtains p m rest where "l = p @ c # m @ c # rest" "c \<notin> set p" "c \<notin> set m"
proof -
  define p where "p = takeWhile (\<lambda>x. x \<noteq> c) l"
  define r where "r = dropWhile (\<lambda>x. x \<noteq> c) l"
  have l: "l = p @ r" by (simp add: p_def r_def)
  have fp: "filter (\<lambda>x. x = c) p = []" by (auto simp: p_def filter_empty_conv dest: set_takeWhileD)
  with two l have "r \<noteq> []" by auto
  moreover have "hd r = c" if "r \<noteq> []" using that hd_dropWhile [of "\<lambda>x. x \<noteq> c" l] by (auto simp: r_def)
  ultimately obtain r' where r: "r = c # r'" by (cases r) auto
  define m where "m = takeWhile (\<lambda>x. x \<noteq> c) r'"
  define q where "q = dropWhile (\<lambda>x. x \<noteq> c) r'"
  have r': "r' = m @ q" by (simp add: m_def q_def)
  have fm: "filter (\<lambda>x. x = c) m = []" by (auto simp: m_def filter_empty_conv dest: set_takeWhileD)
  with two l r r' fp have "q \<noteq> []" by auto
  moreover have "hd q = c" if "q \<noteq> []" using that hd_dropWhile [of "\<lambda>x. x \<noteq> c" r'] by (auto simp: q_def)
  ultimately obtain rest where q: "q = c # rest" by (cases q) auto
  have cp: "c \<notin> set p" using fp by (auto simp: filter_empty_conv)
  have cm: "c \<notin> set m" using fm by (auto simp: filter_empty_conv)
  have "l = p @ c # m @ c # rest" by (simp add: l r r' q)
  then show thesis using cp cm by (rule that)
qed

lemma SplitN_3_decomp:
  assumes "length (SplitN l [c] 3) \<ge> 3"
  shows "\<exists>p m rest. l = p @ c # m @ c # rest \<and> c \<notin> set p \<and> c \<notin> set m \<and> SplitN l [c] 3 = [p, m, rest]"
proof -
  have "\<not> length (filter (\<lambda>x. x = c) l) < 2"
    using assms SplitN_3_short [of c l] by auto
  then have "2 \<le> length (filter (\<lambda>x. x = c) l)" by simp
  then obtain p m rest where d: "l = p @ c # m @ c # rest" "c \<notin> set p" "c \<notin> set m"
    by (rule two_seps_decomp)
  from d(2,3) have "SplitN l [c] 3 = [p, m, rest]"
    unfolding d(1) by (rule SplitN_3_fields)
  with d show ?thesis by (intro exI [of _ p] exI [of _ m] exI [of _ rest]) simp
qed

lemma ParseEntry_skip:
  "TrimSpace line = [] \<or> prefix ''#'' (TrimSpace line) \<Longrightarrow> ParseEntry line n = Inr None"
  by (auto simp: ParseEntry_def)

lemma ParseEntry_fields:
  assumes "TrimSpace line = p @ '' '' @ m @ '' '' @ c" "CHR '' '' \<notin> set p" "CHR '' '' \<notin> set m"
    and "\<not> prefix ''#'' (TrimSpace line)"
  shows "ParseEntry line n =
     (case parseMask m default_options of
        Inl e \<Rightarrow> Inl (LineError n e)
      | Inr (mk, opts) \<Rightarrow>
          Inr (Some \<lparr>Path = p, Mask = mk, Command = c, Options = opts, LineNumber = n\<rparr>))"
proof -
  have "SplitN (TrimSpace line) '' '' 3 = [p, m, c]"
    using SplitN_3_fields [OF assms(2,3), of c] assms(1) by simp
  with assms(1,4) show ?thesis
    by (simp add: ParseEntry_def Let_def numeral_2_eq_2 split: sum.splits prod.splits)
qed

lemma ParseEntry_short:
  assumes "TrimSpace line \<noteq> []" "\<not> prefix ''#'' (TrimSpace line)"
    and "length (filter (\<lambda>x. x = CHR '' '') (TrimSpace line)) < 2"
  shows "ParseEntry line n = Inl (InvalidFormat n)"
  using assms SplitN_3_short [of "CHR '' ''" "TrimSpace line"]
  by (simp add: ParseEntry_def Let_def)

lemma ParseEntry_SomeD:
  assumes "ParseEntry line n = Inr (Some r)"
  obtains p m c where "TrimSpace line = p @ '' '' @ m @ '' '' @ c"
    "CHR '' '' \<notin> set p" "CHR '' '' \<notin> set m" "\<not> prefix ''#'' (TrimSpace line)"
    "parseMask m default_options = Inr (Mask r, Options r)"
    "Path r = p" "Command r = c" "LineNumber r = n"
proof -
  let ?l = "TrimSpace line"
  from assms have ne: "?l \<noteq> []" "\<not> prefix ''#'' ?l" and len: "\<not> length (SplitN ?l '' '' 3) < 3"
    by (auto simp: ParseEntry_def Let_def split: if_splits)
  from len have "3 \<le> length (SplitN ?l [CHR '' ''] 3)" by simp
  from SplitN_3_decomp [OF this]
  obtain p m c where d: "?l = p @ CHR '' '' # m @ CHR '' '' # c"
    "CHR '' '' \<notin> set p" "CHR '' '' \<notin> set m" "SplitN ?l '' '' 3 = [p, m, c]"
    by (elim exE conjE)
  from assms ne d(4) have "parseMask m default_options = Inr (Mask r, Options r) \<and>
      Path r = p \<and> Command r = c \<and> LineNumber r = n"
    by (auto simp: ParseEntry_def Let_def split: sum.splits prod.splits)
  with d ne that show thesis by auto
qed




section \<open>Command interpolation\<close>

text \<open>
  C1. The claim: interpolation is single-pass, so the \<open>$\<close> produced by \<open>$$\<close> never
  combines with a following \<open>@\<close>, \<open>#\<close>, \<open>%\<close> or \<open>&\<close>; the template \<open>$$@\<close> yields the two
  characters \<open>$@\<close>. The code runs five replacement passes one after the other, the
  \<open>$$\<close> pass first: on the template \<open>$$@\<close> the first pass leaves \<open>$@\<close>, which the second
  pass replaces by the watch directory.
\<close>

theorem ExpandCommand_dollar_dollar_at:
  "ExpandCommand ReverseEventMaskMap
     \<lparr>Path = ''/w'', Mask = InCreate, Command = ''$$@'',
      Options = \<lparr>NoLoop = True, Recursive = True, DotDirs = False\<rparr>, LineNumber = 1\<rparr>
     ''/w'' ''f.txt'' InCreate = ''/w''"
  by (simp add: ExpandCommand_def)

section \<open>Inputs used in the examples\<close>

definition rule_tmp :: IncronEntry where
  "rule_tmp = \<lparr>Path = ''/tmp'', Mask = InCreate, Command = ''echo test'',
               Options = default_options, LineNumber = 1\<rparr>"




text \<open>A line whose three fields are separated by tabs.\<close>

definition tab_line :: string where
  "tab_line = ''/tmp'' @ [CHR 0x09] @ ''IN_CREATE'' @ [CHR 0x09] @ ''echo test''"

text \<open>
  File systems for the permission gate: one with an allow file and a deny file that both
  name alice, one with a deny file only, one with neither.
\<close>

definition fs_allow :: filesystem where
  "fs_allow =
     \<lparr>stat_ok = (\<lambda>p. p = DefaultAllowFile \<or> p = DefaultDenyFile),
      open_file = (\<lambda>p. if p = DefaultAllowFile then Opened [''# allowed users'', ''  alice  ''] False
                        else if p = DefaultDenyFile then Opened [''alice''] False
                        else OpenNotExist)\<rparr>"

definition fs_deny :: filesystem where
  "fs_deny =
     \<lparr>stat_ok = (\<lambda>p. p = DefaultDenyFile),
      open_file = (\<lambda>p. if p = DefaultDenyFile then Opened [''alice''] False
                        else OpenNotExist)\<rparr>"

definition fs_none :: filesystem where
  "fs_none = \<lparr>stat_ok = (\<lambda>p. False), open_file = (\<lambda>p. OpenNotExist)\<rparr>"

text \<open>The outcome of reading a permission file, for the statement of the policy.\<close>

definition read_fails :: "open_result \<Rightarrow> string \<Rightarrow> bool" where
  "read_fails r u =
     (case r of OpenNotExist \<Rightarrow> False | OpenFailed \<Rightarrow> True
      | Opened ls err \<Rightarrow> err \<and> \<not> listed u ls)"

definition lists_user :: "open_result \<Rightarrow> string \<Rightarrow> bool" where
  "lists_user r u =
     (case r of OpenNotExist \<Rightarrow> False | OpenFailed \<Rightarrow> False
      | Opened ls err \<Rightarrow> listed u ls)"

section \<open>Invariants of parsed rules\<close>




section \<open>Fields of a line\<close>

text \<open>
  C3. The claim: a line that consists of three fields separated by whitespace of any
  kind and amount parses into those three fields, and a line with fewer than three fields
  is an error that cites the expected format. \<open>ParseEntry\<close> splits with
  \<open>strings.SplitN(line, " ", 3)\<close>, at single space characters: a line whose fields are
  separated by tabs has no space and is rejected with the format error.
\<close>

theorem ParseEntry_tab_separated:
  "ParseEntry tab_line 1 = Inl (InvalidFormat 1)"
  by code_simp

text \<open>
  C3, as the code has it. A line that is empty or a comment after trimming gives no Rule
  and no error. Otherwise the trimmed line is cut at its first two space characters
  (U+0020): with fewer than two spaces it is the error citing the expected format; with
  two or more, the path is the text before the first space, the mask field the text
  between the first and the second space (empty when they are adjacent), and the
  command everything after the second space. Tabs and other whitespace do not separate
  fields.
\<close>

theorem ParseEntry_space_fields:
  "(TrimSpace line = [] \<or> prefix ''#'' (TrimSpace line) \<longrightarrow> ParseEntry line n = Inr None) \<and>
   (TrimSpace line \<noteq> [] \<and> \<not> prefix ''#'' (TrimSpace line) \<longrightarrow>
     (length (filter (\<lambda>x. x = CHR '' '') (TrimSpace line)) < 2 \<longrightarrow>
        ParseEntry line n = Inl (InvalidFormat n)) \<and>
     (\<forall>p m c. TrimSpace line = p @ '' '' @ m @ '' '' @ c \<and>
              CHR '' '' \<notin> set p \<and> CHR '' '' \<notin> set m \<longrightarrow>
        ParseEntry line n =
          (case parseMask m default_options of
             Inl e \<Rightarrow> Inl (LineError n e)
           | Inr (mk, opts) \<Rightarrow>
               Inr (Some \<lparr>Path = p, Mask = mk, Command = c, Options = opts,
                          LineNumber = n\<rparr>))) \<and>
     (2 \<le> length (filter (\<lambda>x. x = CHR '' '') (TrimSpace line)) \<longrightarrow>
        (\<exists>p m c. TrimSpace line = p @ '' '' @ m @ '' '' @ c \<and>
              CHR '' '' \<notin> set p \<and> CHR '' '' \<notin> set m)))"
proof (intro conjI impI allI)
  assume "TrimSpace line = [] \<or> prefix ''#'' (TrimSpace line)"
  then show "ParseEntry line n = Inr None" by (rule ParseEntry_skip)
next
  assume "TrimSpace line \<noteq> [] \<and> \<not> prefix ''#'' (TrimSpace line)"
    and "length (filter (\<lambda>x. x = CHR '' '') (TrimSpace line)) < 2"
  then show "ParseEntry line n = Inl (InvalidFormat n)" by (simp add: ParseEntry_short)
next
  fix p m c
  assume "TrimSpace line \<noteq> [] \<and> \<not> prefix ''#'' (TrimSpace line)"
    and "TrimSpace line = p @ '' '' @ m @ '' '' @ c \<and> CHR '' '' \<notin> set p \<and> CHR '' '' \<notin> set m"
  then show "ParseEntry line n =
          (case parseMask m default_options of
             Inl e \<Rightarrow> Inl (LineError n e)
           | Inr (mk, opts) \<Rightarrow>
               Inr (Some \<lparr>Path = p, Mask = mk, Command = c, Options = opts,
                          LineNumber = n\<rparr>))"
    using ParseEntry_fields [of line p m c n] by simp
next
  assume "2 \<le> length (filter (\<lambda>x. x = CHR '' '') (TrimSpace line))"
  then obtain p m c where "TrimSpace line = p @ CHR '' '' # m @ CHR '' '' # c"
    "CHR '' '' \<notin> set p" "CHR '' '' \<notin> set m"
    by (rule two_seps_decomp)
  then show "\<exists>p m c. TrimSpace line = p @ '' '' @ m @ '' '' @ c \<and>
              CHR '' '' \<notin> set p \<and> CHR '' '' \<notin> set m"
    by (intro exI [of _ p] exI [of _ m] exI [of _ c]) simp
qed

theorem ParseEntry_space_fields_witness:
  "TrimSpace ''  /tmp IN_CREATE echo test '' = ''/tmp'' @ '' '' @ ''IN_CREATE'' @ '' '' @ ''echo test'' \<and>
   ParseEntry ''  /tmp IN_CREATE echo test '' 1 = Inr (Some rule_tmp) \<and>
   ParseEntry ''/tmp IN_CREATE'' 1 = Inl (InvalidFormat 1) \<and>
   ParseEntry ''  # comment'' 1 = Inr None"
proof -
  let ?l = "''  /tmp IN_CREATE echo test ''"
  have t: "TrimSpace ?l = ''/tmp'' @ '' '' @ ''IN_CREATE'' @ '' '' @ ''echo test''"
    by code_simp
  have n: "TrimSpace ?l \<noteq> [] \<and> \<not> prefix ''#'' (TrimSpace ?l)"
    by code_simp
  have m: "parseMask ''IN_CREATE'' default_options = Inr (InCreate, default_options)"
    by code_simp
  have s: "TrimSpace ''/tmp IN_CREATE'' \<noteq> [] \<and> \<not> prefix ''#'' (TrimSpace ''/tmp IN_CREATE'') \<and>
      length (filter (\<lambda>x. x = CHR '' '') (TrimSpace ''/tmp IN_CREATE'')) < 2"
    by code_simp
  have c: "prefix ''#'' (TrimSpace ''  # comment'')"
    by code_simp
  note f = ParseEntry_space_fields [of ?l 1, THEN conjunct2, THEN mp, OF n, THEN conjunct2,
      THEN conjunct1, rule_format, of "''/tmp''" "''IN_CREATE''" "''echo test''"]
  have "ParseEntry ?l 1 =
          (case parseMask ''IN_CREATE'' default_options of
             Inl e \<Rightarrow> Inl (LineError 1 e)
           | Inr (mk, opts) \<Rightarrow>
               Inr (Some \<lparr>Path = ''/tmp'', Mask = mk, Command = ''echo test'', Options = opts,
                          LineNumber = 1\<rparr>))"
    by (rule f) (simp add: t)
  with m have 1: "ParseEntry ?l 1 = Inr (Some rule_tmp)"
    by (simp add: rule_tmp_def)
  have 2: "ParseEntry ''/tmp IN_CREATE'' 1 = Inl (InvalidFormat 1)"
    using ParseEntry_space_fields [of "''/tmp IN_CREATE''" 1, THEN conjunct2, THEN mp,
        THEN conjunct1, THEN mp] s by simp
  have 3: "ParseEntry ''  # comment'' 1 = Inr None"
    using ParseEntry_space_fields [of "''  # comment''" 1, THEN conjunct1, THEN mp] c by simp
  from t 1 2 3 show ?thesis by simp
qed

section \<open>The permission gate\<close>

lemma userInLines_listed: "userInLines u ls = listed u ls"
  by (induction ls) (auto simp: listed_def Let_def)

lemma CheckUserPermission_eq:
  "CheckUserPermission fs u =
     (if stat_ok fs DefaultAllowFile then
        (case open_file fs DefaultAllowFile of
           OpenNotExist \<Rightarrow> (False, None)
         | OpenFailed \<Rightarrow> (False, Some (AllowFileError OpenError))
         | Opened ls err \<Rightarrow>
             if listed u ls then (True, None)
             else (False, if err then Some (AllowFileError ScanError) else None))
      else if stat_ok fs DefaultDenyFile then
        (case open_file fs DefaultDenyFile of
           OpenNotExist \<Rightarrow> (True, None)
         | OpenFailed \<Rightarrow> (False, Some (DenyFileError OpenError))
         | Opened ls err \<Rightarrow>
             if listed u ls then (False, None)
             else if err then (False, Some (DenyFileError ScanError)) else (True, None))
      else (True, None))"
  by (simp add: CheckUserPermission_def fileExists_def userInFile_def userInLines_listed
      split: open_result.splits)

text \<open>
  C4. With \<open>r\<close> the result of \<open>CheckUserPermission\<close> for a user: if the allow file
  exists, \<open>r\<close> permits exactly when the user is listed in it, an error is returned
  exactly when the file cannot be opened or the scan fails before the user is found, and
  \<open>r\<close> is the same for every state of the deny file (the code asks whether the deny file
  exists before it branches, and does not use the answer here); otherwise, if the deny
  file exists, \<open>r\<close> permits exactly when the user is not listed and reading did not
  fail; otherwise \<open>r\<close> permits. Whenever an error is returned, the answer is a refusal.
\<close>

theorem CheckUserPermission_policy:
  fixes fs :: filesystem and u :: string
  defines "r \<equiv> CheckUserPermission fs u"
  shows
  "(stat_ok fs DefaultAllowFile \<longrightarrow>
      (fst r \<longleftrightarrow> lists_user (open_file fs DefaultAllowFile) u) \<and>
      (snd r \<noteq> None \<longleftrightarrow> read_fails (open_file fs DefaultAllowFile) u) \<and>
      (\<forall>fs'. stat_ok fs' DefaultAllowFile \<and>
             open_file fs' DefaultAllowFile = open_file fs DefaultAllowFile \<longrightarrow>
             CheckUserPermission fs' u = r)) \<and>
   (\<not> stat_ok fs DefaultAllowFile \<and> stat_ok fs DefaultDenyFile \<longrightarrow>
      (fst r \<longleftrightarrow> \<not> lists_user (open_file fs DefaultDenyFile) u \<and>
                 \<not> read_fails (open_file fs DefaultDenyFile) u) \<and>
      (snd r \<noteq> None \<longleftrightarrow> read_fails (open_file fs DefaultDenyFile) u)) \<and>
   (\<not> stat_ok fs DefaultAllowFile \<and> \<not> stat_ok fs DefaultDenyFile \<longrightarrow> r = (True, None)) \<and>
   (snd r \<noteq> None \<longrightarrow> \<not> fst r)"
  unfolding r_def CheckUserPermission_eq [of fs u]
  by (auto simp: CheckUserPermission_eq lists_user_def read_fails_def split: open_result.splits)

theorem CheckUserPermission_policy_witness:
  "stat_ok fs_allow DefaultAllowFile \<and>
   fst (CheckUserPermission fs_allow ''alice'') \<and>
   \<not> fst (CheckUserPermission fs_allow ''bob'') \<and>
   \<not> stat_ok fs_deny DefaultAllowFile \<and> stat_ok fs_deny DefaultDenyFile \<and>
   \<not> fst (CheckUserPermission fs_deny ''alice'') \<and>
   fst (CheckUserPermission fs_deny ''bob'') \<and>
   CheckUserPermission fs_none ''alice'' = (True, None)"
proof -
  have s: "stat_ok fs_allow DefaultAllowFile"
    "\<not> stat_ok fs_deny DefaultAllowFile" "stat_ok fs_deny DefaultDenyFile"
    "\<not> stat_ok fs_none DefaultAllowFile" "\<not> stat_ok fs_none DefaultDenyFile"
    by code_simp+
  have a: "lists_user (open_file fs_allow DefaultAllowFile) ''alice''"
    "\<not> lists_user (open_file fs_allow DefaultAllowFile) ''bob''"
    by code_simp+
  have d: "lists_user (open_file fs_deny DefaultDenyFile) ''alice''"
    "\<not> lists_user (open_file fs_deny DefaultDenyFile) ''bob''"
    "\<not> read_fails (open_file fs_deny DefaultDenyFile) ''bob''"
    by code_simp+
  note A = CheckUserPermission_policy [THEN conjunct1, THEN mp, THEN conjunct1]
  note D = CheckUserPermission_policy [THEN conjunct2, THEN conjunct1, THEN mp, THEN conjunct1]
  note N = CheckUserPermission_policy [THEN conjunct2, THEN conjunct2, THEN conjunct1, THEN mp]
  from A [of fs_allow "''alice''"] s a
  have 1: "fst (CheckUserPermission fs_allow ''alice'')" by simp
  from A [of fs_allow "''bob''"] s a
  have 2: "\<not> fst (CheckUserPermission fs_allow ''bob'')" by simp
  from D [of fs_deny "''alice''"] s d
  have 3: "\<not> fst (CheckUserPermission fs_deny ''alice'')" by simp
  from D [of fs_deny "''bob''"] s d
  have 4: "fst (CheckUserPermission fs_deny ''bob'')" by simp
  from N [of fs_none "''alice''"] s
  have 5: "CheckUserPermission fs_none ''alice'' = (True, None)" by simp
  from s 1 2 3 4 5 show ?thesis by simp
qed

section \<open>Path matching\<close>

lemma Contains_single: "Contains s [c] \<longleftrightarrow> c \<in> set s"
  unfolding Contains_def by (induction s) auto

























section \<open>Decoding inotify records\<close>

text \<open>Example inputs: a watcher of the root directory and of \<open>/data\<close>, and raw records.\<close>

definition watcher_ex :: Watcher where
  "watcher_ex =
     \<lparr>watches = (\<lambda>wd. if wd = 1 then
                          Some \<lparr>Path_w = ''/'', Mask_w = InCreate, Entry_w = None,
                                Recursive_w = False, DotDirs_w = False\<rparr>
                        else if wd = 2 then
                          Some \<lparr>Path_w = ''/data'', Mask_w = InCreate, Entry_w = None,
                                Recursive_w = False, DotDirs_w = False\<rparr>
                        else None),
      pathWatches = (\<lambda>p. if p = ''/'' then Some 1 else if p = ''/data'' then Some 2 else None)\<rparr>"

definition kernel_ex :: kernel where
  "kernel_ex =
     \<lparr>os_stat = (\<lambda>p. None), lstat_walk = (\<lambda>p. FsLstatErr),
      inotify_add_watch = (\<lambda>p m. None), inotify_rm_watch = (\<lambda>wd. False)\<rparr>"

text \<open>
  Headers: watch descriptor, mask \<open>IN_CREATE\<close>, cookie 0 and name length, each in four
  bytes. The name field of \<open>record_root\<close> is a name of 15 bytes and one NUL; that of
  \<open>record_hello\<close> is \<open>hello\<close> padded with NULs to 16 bytes, as the kernel writes it.
\<close>

definition header_ex :: "char \<Rightarrow> char \<Rightarrow> string" where
  "header_ex wd len =
     [wd, CHR 0x00, CHR 0x00, CHR 0x00,  CHR 0x00, CHR 0x01, CHR 0x00, CHR 0x00,
      CHR 0x00, CHR 0x00, CHR 0x00, CHR 0x00,  len, CHR 0x00, CHR 0x00, CHR 0x00]"

definition record_root :: string where
  "record_root = header_ex (CHR 0x01) (CHR 0x10) @ ''abcdefghijklmno'' @ [CHR 0x00]"

definition record_hello :: string where
  "record_hello = header_ex (CHR 0x02) (CHR 0x10) @ ''hello'' @ replicate 11 (CHR 0x00)"

definition record_unknown :: string where
  "record_unknown = header_ex (CHR 0x07) (CHR 0x00)"

text \<open>A path element that \<open>filepath.Clean\<close> keeps as it is.\<close>

definition plain_elem :: "string \<Rightarrow> bool" where
  "plain_elem e \<longleftrightarrow> e \<noteq> [] \<and> e \<noteq> ''.'' \<and> e \<noteq> ''..'' \<and> CHR ''/'' \<notin> set e"

lemma rd32_append_right: "rd32 (pre @ buf) (length pre + j) = rd32 buf j"
  by (simp add: rd32_def nth_append)

lemma rd32_append_left: "j + 3 < length h \<Longrightarrow> rd32 (h @ buf) j = rd32 h j"
  by (simp add: rd32_def nth_append)

lemma parseEvents_loop_append:
  "parseEvents_loop k (pre @ buf) (length pre + i) w = parseEvents_loop k buf i w"
proof (induction "length buf - i" arbitrary: i w rule: less_induct)
  case less
  let ?n = "unat (rd32 buf (i + 12))"
  have IH: "parseEvents_loop k (pre @ buf) (length pre + (i + (16 + ?n))) w' =
         parseEvents_loop k buf (i + (16 + ?n)) w'" if "i + 16 \<le> length buf" for w'
  proof -
    have "length buf - (i + 16 + ?n) < length buf - i" using that by arith
    from less [OF this] show ?thesis by (simp add: add.assoc)
  qed
  consider (short) "\<not> i + 16 \<le> length buf"
    | (big) "i + 16 \<le> length buf" "0 < ?n" "length buf < i + (16 + ?n)"
    | (zero) "i + 16 \<le> length buf" "?n = 0"
    | (ok) "i + 16 \<le> length buf" "0 < ?n" "i + (16 + ?n) \<le> length buf"
    by arith
  then show ?case
  proof cases
    case short
    then show ?thesis
      by (subst parseEvents_loop.simps, subst (2) parseEvents_loop.simps) auto
  next
    case big
    then show ?thesis
      by (subst parseEvents_loop.simps, subst (2) parseEvents_loop.simps)
         (simp add: Let_def rd32_append_right add.assoc)
  next
    case zero
    with IH [OF zero(1)] show ?thesis
      by (subst parseEvents_loop.simps, subst (2) parseEvents_loop.simps)
         (simp add: Let_def rd32_append_right add.assoc)
  next
    case ok
    with IH [OF ok(1)] show ?thesis
      by (subst parseEvents_loop.simps, subst (2) parseEvents_loop.simps)
         (simp add: Let_def rd32_append_right add.assoc)
  qed
qed



lemma parseEvents_record:
  assumes "length h = 16" "unat (rd32 h 12) = length field"
  shows "parseEvents k w (h @ field @ rest) =
     (let wd = sint (rd32 h 0); m = rd32 h 4; cookie = rd32 h 8;
          name = nameOfField field;
          created = (case createEvent w wd m cookie name of None \<Rightarrow> [] | Some event \<Rightarrow> [event]);
          w1 = (if m AND InCreate \<noteq> 0 \<and> m AND InIsdir \<noteq> 0
                then handleDirCreate k w wd name else w)
      in case parseEvents k w1 rest of (events, w2) \<Rightarrow> (created @ events, w2))"
proof -
  have sh: "parseEvents_loop k (h @ field @ rest) (16 + length field) w' =
        parseEvents_loop k rest 0 w'" for w'
    using parseEvents_loop_append [of k "h @ field" rest 0 w'] assms(1) by simp
  show ?thesis
    unfolding parseEvents_def using assms
    by (subst parseEvents_loop.simps) (simp add: Let_def rd32_append_left sh)
qed

lemma handleDirCreate_unknown: "watches w wd = None \<Longrightarrow> handleDirCreate k w wd name = w"
  by (simp add: handleDirCreate_def)


lemma Join_nonempty: "ts \<noteq> [] \<Longrightarrow> list_all plain_elem ts \<Longrightarrow> Join ts sep \<noteq> []"
  by (induction ts sep rule: Join.induct) (auto simp: plain_elem_def)






text \<open>
  The name of a record that the kernel pads with more than one NUL keeps all but the
  last of them: the source removes one byte.
\<close>

lemma parseEvents_padded_name:
  "map Name_ev (fst (parseEvents kernel_ex watcher_ex record_hello)) =
     [''hello'' @ replicate 10 (CHR 0x00)]"
  by code_simp



section \<open>Records of unknown watch descriptors\<close>

text \<open>
  C10. A record whose watch descriptor is not in the watch-descriptor index gives no
  event: \<open>createEvent\<close> returns nothing for it, and decoding the buffer gives what
  decoding the rest of the buffer behind the record gives (the same events and the same
  indices). The decoder has no error result.
\<close>

theorem unknown_descriptor_skipped:
  assumes "length h = 16" "unat (rd32 h 12) = length field"
    and "watches w (sint (rd32 h 0)) = None"
  shows "createEvent w (sint (rd32 h 0)) (rd32 h 4) (rd32 h 8) (nameOfField field) = None \<and>
         parseEvents k w (h @ field @ rest) = parseEvents k w rest"
  using assms(3)
  by (simp add: parseEvents_record [OF assms(1,2)] createEvent_def handleDirCreate_unknown Let_def)

theorem unknown_descriptor_skipped_witness:
  "watches watcher_ex 7 = None \<and>
   parseEvents kernel_ex watcher_ex (record_unknown @ [] @ record_root) =
     parseEvents kernel_ex watcher_ex record_root \<and>
   fst (parseEvents kernel_ex watcher_ex (record_unknown @ [] @ record_root)) =
     [\<lparr>Path_ev = ''/abcdefghijklmno'', Name_ev = ''abcdefghijklmno'', Mask_ev = InCreate,
       Cookie_ev = 0, WatchDir_ev = ''/''\<rparr>]"
proof -
  have h: "length record_unknown = 16" "unat (rd32 record_unknown 12) = length ([] :: string)"
    by code_simp+
  have wd: "sint (rd32 record_unknown 0) = 7" by code_simp
  have n: "watches watcher_ex (sint (rd32 record_unknown 0)) = None"
    unfolding wd by (simp add: watcher_ex_def)
  have e: "fst (parseEvents kernel_ex watcher_ex record_root) =
     [\<lparr>Path_ev = ''/abcdefghijklmno'', Name_ev = ''abcdefghijklmno'', Mask_ev = InCreate,
       Cookie_ev = 0, WatchDir_ev = ''/''\<rparr>]"
    by code_simp
  from unknown_descriptor_skipped [OF h n, of kernel_ex record_root]
  have "parseEvents kernel_ex watcher_ex (record_unknown @ [] @ record_root) =
     parseEvents kernel_ex watcher_ex record_root" by simp
  with e n wd show ?thesis by simp
qed

section \<open>Registering a watch\<close>

text \<open>
  Example inputs: a recursive rule on the directory \<open>/d\<close>, and a kernel for which
  \<open>/d\<close> is a directory when \<open>AddWatch\<close> stats and watches it (descriptor 1) and has
  been removed when the walk starts: \<open>Lstat\<close> of the root fails, and so does
  \<open>inotify_rm_watch\<close>, since the kernel drops the watch of a deleted directory.
\<close>

definition entry_d :: IncronEntry where
  "entry_d = \<lparr>Path = ''/d'', Mask = InCreate, Command = ''echo'',
              Options = default_options, LineNumber = 1\<rparr>"

definition watcher_empty :: Watcher where
  "watcher_empty = \<lparr>watches = (\<lambda>wd. None), pathWatches = (\<lambda>p. None)\<rparr>"

definition kernel_vanished :: kernel where
  "kernel_vanished =
     \<lparr>os_stat = (\<lambda>p. if p = ''/d'' then Some True else None),
      lstat_walk = (\<lambda>p. FsLstatErr),
      inotify_add_watch = (\<lambda>p m. if p = ''/d'' then Some 1 else None),
      inotify_rm_watch = (\<lambda>wd. False)\<rparr>"

text \<open>The first two parts of the claim hold of the code.\<close>

lemma AddWatch_already_watched:
  "pathWatches w (Path entry) \<noteq> None \<Longrightarrow>
   AddWatch k w entry = (Some (AlreadyWatched (Path entry)), w)"
  by (simp add: AddWatch_def)

lemma AddWatch_root_failure:
  assumes "pathWatches w (Path entry) = None"
    and "os_stat k (Path entry) = None \<or> inotify_add_watch k (Path entry) (Mask entry) = None"
  shows "fst (AddWatch k w entry) \<noteq> None \<and> snd (AddWatch k w entry) = w"
  using assms
  by (auto simp: AddWatch_def addSingleWatch_def Let_def split: option.splits)

text \<open>
  The walk changes neither the entry of the root's descriptor nor that of the root's
  path, when the kernel gives the root's descriptor to no other path.
\<close>

definition keeps :: "int \<Rightarrow> string \<Rightarrow> Watcher \<Rightarrow> Watcher \<Rightarrow> bool" where
  "keeps wd root w w' \<longleftrightarrow>
     watches w' wd = watches w wd \<and> pathWatches w' root = pathWatches w root"

lemma walkFn_keeps:
  assumes "\<forall>p. p \<noteq> root \<longrightarrow> inotify_add_watch k p m \<noteq> Some wd"
  shows "keeps wd root w (snd (walkFn k root m dots path isDir err w))"
  using assms
  by (auto simp: keeps_def walkFn_def addSingleWatch_def split: option.splits)

lemma walk_keeps:
  "(\<And>path isDir err w. keeps wd root w (snd (fn path isDir err w))) \<Longrightarrow>
     keeps wd root w (snd (walk fn path t w))"
  "(\<And>path isDir err w. keeps wd root w (snd (fn path isDir err w))) \<Longrightarrow>
     keeps wd root w (snd (walk_names fn path ts w))"
proof (induction fn path t w and fn path ts w rule: walk_walk_names.induct)
  case (1 fn path w)
  then show ?case by simp
next
  case (2 fn path w)
  then show ?case by simp
next
  case (3 fn path rderr children w)
  obtain r w1 where f: "fn path True rderr w = (r, w1)" by (cases "fn path True rderr w")
  have k1: "keeps wd root w w1" using 3(2) [of w path True rderr] f by simp
  show ?case
  proof (cases "rderr \<or> r \<noteq> WalkNil")
    case True
    with f k1 show ?thesis by auto
  next
    case False
    with 3(1) [OF f [symmetric] _ 3(2)]
    have "keeps wd root w1 (snd (walk_names fn path children w1))" by simp
    with k1 f False show ?thesis by (auto simp: keeps_def)
  qed
next
  case (4 fn path w)
  show ?case by (simp add: keeps_def)
next
  case (5 fn path name t rest w)
  obtain r w1 where f: "walk fn (Join2 path name) t w = (r, w1)"
    by (cases "walk fn (Join2 path name) t w")
  have k1: "keeps wd root w w1" using 5(1) [OF 5(4)] f by simp
  show ?case
  proof (cases "snd (walk_names fn path ((name, t) # rest) w) = w1")
    case True
    with k1 show ?thesis by simp
  next
    case False
    with f have e: "snd (walk_names fn path ((name, t) # rest) w) = snd (walk_names fn path rest w1)"
      by (auto split: if_splits)
    have "keeps wd root w1 (snd (walk_names fn path rest w1))"
    proof (cases "t = FsLstatErr")
      case True
      with False f have c: "\<not> (r \<noteq> WalkNil \<and> r \<noteq> WalkSkipDir)" by (auto split: if_splits)
      from 5(2) [OF f [symmetric] True c 5(4)] show ?thesis .
    next
      case nl: False
      with False f have c: "\<not> (r \<noteq> WalkNil \<and> (\<not> is_dir t \<or> r \<noteq> WalkSkipDir))"
        by (auto split: if_splits)
      from 5(3) [OF f [symmetric] nl c 5(4)] show ?thesis .
    qed
    with k1 e show ?thesis by (simp add: keeps_def)
  qed
qed

lemma addRecursiveWatches_keeps:
  assumes "\<forall>p. p \<noteq> root \<longrightarrow> inotify_add_watch k p m \<noteq> Some wd"
  shows "keeps wd root w (snd (addRecursiveWatches k w root m dots))"
proof -
  have "keeps wd root w (snd (walk (walkFn k root m dots) root (lstat_walk k root) w))"
    by (rule walk_keeps) (rule walkFn_keeps [OF assms])
  then show ?thesis
    by (cases "walk (walkFn k root m dots) root (lstat_walk k root) w")
       (simp add: addRecursiveWatches_def Walk_def)
qed

text \<open>
  The third part holds when the kernel removes the root watch and has given its
  descriptor to no other path.
\<close>

lemma AddWatch_recursive_failure:
  assumes "pathWatches w (Path entry) = None" "os_stat k (Path entry) = Some True"
    and "Recursive (Options entry)"
    and "inotify_add_watch k (Path entry) (Mask entry) = Some wd"
    and "\<forall>p. p \<noteq> Path entry \<longrightarrow> inotify_add_watch k p (Mask entry) \<noteq> Some wd"
    and "fst (addRecursiveWatches k
           (w\<lparr>watches := (watches w)(wd \<mapsto>
                 \<lparr>Path_w = Path entry, Mask_w = Mask entry, Entry_w = Some entry,
                  Recursive_w = True, DotDirs_w = DotDirs (Options entry)\<rparr>),
               pathWatches := (pathWatches w)(Path entry \<mapsto> wd)\<rparr>)
           (Path entry) (Mask entry) (DotDirs (Options entry))) \<noteq> None"
    and "inotify_rm_watch k wd"
  shows "fst (AddWatch k w entry) = Some (RecursiveSetupError WalkError) \<and>
         watches (snd (AddWatch k w entry)) wd = None \<and>
         pathWatches (snd (AddWatch k w entry)) (Path entry) = None"
proof -
  let ?wi = "\<lparr>Path_w = Path entry, Mask_w = Mask entry, Entry_w = Some entry,
                  Recursive_w = True, DotDirs_w = DotDirs (Options entry)\<rparr>"
  let ?w1 = "w\<lparr>watches := (watches w)(wd \<mapsto> ?wi),
               pathWatches := (pathWatches w)(Path entry \<mapsto> wd)\<rparr>"
  obtain e w2 where r: "addRecursiveWatches k ?w1 (Path entry) (Mask entry)
      (DotDirs (Options entry)) = (e, w2)"
    by (cases "addRecursiveWatches k ?w1 (Path entry) (Mask entry) (DotDirs (Options entry))")
  from assms(6) r have e: "e = Some WalkError"
    by (auto simp: addRecursiveWatches_def split: prod.splits if_splits)
  from addRecursiveWatches_keeps [OF assms(5), of ?w1 "DotDirs (Options entry)"] r
  have k2: "watches w2 wd = Some ?wi" by (simp add: keeps_def)
  from k2 assms(7) have rm: "snd (removeWatch k w2 wd) =
      w2\<lparr>watches := (watches w2)(wd := None),
         pathWatches := (pathWatches w2)(Path entry := None)\<rparr>"
    by (simp add: removeWatch_def)
  from assms(1,2,3,4) r e rm show ?thesis
    by (simp add: AddWatch_def addSingleWatch_def Let_def)
qed

text \<open>
  C8. The claim: \<open>AddWatch\<close> fails for a path that is already in the path index; when
  the root watch cannot be installed it fails with both indices unchanged; and when the
  recursive setup fails after the root watch was installed, the root watch entry is
  removed from both indices before the failure is returned. The first two parts hold
  (\<open>AddWatch_already_watched\<close>, \<open>AddWatch_root_failure\<close>). For the third, \<open>AddWatch\<close>
  calls \<open>removeWatch\<close> and drops its result; \<open>removeWatch\<close> returns before it touches
  the indices when \<open>inotify_rm_watch\<close> fails. For a directory that is deleted after the
  root watch was installed, the walk fails, the kernel refuses to remove the watch it has
  already dropped, and \<open>AddWatch\<close> returns the failure with the root entry in both
  indices; a later \<open>AddWatch\<close> of the path is refused as already watched.
\<close>

theorem AddWatch_stale_root_entry:
  "fst (AddWatch kernel_vanished watcher_empty entry_d) = Some (RecursiveSetupError WalkError) \<and>
   pathWatches (snd (AddWatch kernel_vanished watcher_empty entry_d)) ''/d'' = Some 1 \<and>
   map_option Path_w (watches (snd (AddWatch kernel_vanished watcher_empty entry_d)) 1) =
     Some ''/d'' \<and>
   fst (AddWatch kernel_vanished (snd (AddWatch kernel_vanished watcher_empty entry_d)) entry_d) =
     Some (AlreadyWatched ''/d'')"
  by code_simp

section \<open>Admission to the executor\<close>

text \<open>
  Example inputs: the rule and the event of the end-to-end scenario, and an executor
  with room for one command.
\<close>

definition entry_data :: IncronEntry where
  "entry_data = \<lparr>Path = ''/data'', Mask = InCreate, Command = ''touch /tmp/out/$#'',
                 Options = default_options, LineNumber = 1\<rparr>"

definition event_hello :: InotifyEvent where
  "event_hello = \<lparr>Path_ev = ''/data/hello'', Name_ev = ''hello'', Mask_ev = InCreate,
                  Cookie_ev = 0, WatchDir_ev = ''/data''\<rparr>"

definition env_ex :: exec_env where
  "env_ex = \<lparr>map_order = ReverseEventMaskMap, now = 1700000000000000000,
             credentials_ok = (\<lambda>u. True), run_child = (\<lambda>args. (True, 0))\<rparr>"

definition executor_busy :: CommandExecutor where
  "executor_busy =
     \<lparr>runningCommands =
        [(''_data_hello_256_1700000000000000000'',
          \<lparr>ID = ''_data_hello_256_1700000000000000000'', Entry_rc = entry_data,
           Event_rc = event_hello, Username_rc = ''root''\<rparr>)],
      mu = True, maxConcurrent = 1, currentCount = 1\<rparr>"

text \<open>
  With the mutex free, the two admission checks refuse as the claim says, and leave the
  executor as it was.
\<close>

lemma Execute_at_capacity:
  assumes "\<not> mu ce" "maxConcurrent ce \<le> currentCount ce"
  shows "Execute env ce entry event username =
           (Returns (Inl (MaxConcurrentReached (maxConcurrent ce))), ce)"
  using assms by (simp add: Execute_def Let_def)

lemma Execute_self_trigger:
  assumes "\<not> mu ce" "currentCount ce < maxConcurrent ce" "NoLoop (Options entry)"
    and "(key, rc) \<in> set (runningCommands ce)" "Path (Entry_rc rc) = Path entry"
      "Username_rc rc = username"
  shows "Execute env ce entry event username = (Returns (Inl (LoopPrevention (Path entry))), ce)"
proof -
  have "list_ex (\<lambda>(key, runningCmd). Path (Entry_rc runningCmd) = Path entry \<and>
          Username_rc runningCmd = username) (runningCommands ce)"
    using assms(4,5,6) by (auto simp: list_ex_iff)
  with assms(1,2,3) show ?thesis by (simp add: Execute_def Let_def)
qed

text \<open>
  But a call that admits a command never returns: it waits for the child while it holds
  the mutex and then locks the mutex again. So the mutex is free only while nothing
  runs, and a call that finds a command running finds the mutex held.
\<close>

lemma Execute_never_returns_result:
  "fst (Execute env ce entry event username) \<noteq> Returns (Inr result)"
  by (simp add: Execute_def Let_def split: prod.splits)

lemma Execute_held_mutex: "mu ce \<Longrightarrow> Execute env ce entry event username = (Blocked, ce)"
  by (simp add: Execute_def)

lemma Execute_idle_invariant:
  assumes "\<not> mu ce \<longrightarrow> currentCount ce = 0 \<and> runningCommands ce = []"
  shows "\<not> mu (snd (Execute env ce entry event username)) \<longrightarrow>
         currentCount (snd (Execute env ce entry event username)) = 0 \<and>
         runningCommands (snd (Execute env ce entry event username)) = []"
  using assms by (simp add: Execute_def Let_def split: prod.splits)

text \<open>
  C5. The claim: \<open>Execute\<close> returns an error at once, admitting nothing, when the number
  of running commands is at the maximum, and refuses a request of a no-self-trigger Rule
  with the loop-prevention error when a running command has the same path and principal.
  On an executor with room for one command, the first request is admitted and its call
  never returns (it is blocked on the mutex it holds); the executor then has one running
  command, which is its maximum, of the same path and principal, and a second request
  gets no error: its call is blocked as well.
\<close>

theorem Execute_blocked_at_capacity:
  "Execute env_ex (NewCommandExecutor 1) entry_data event_hello ''root'' = (Blocked, executor_busy) \<and>
   currentCount executor_busy = maxConcurrent executor_busy \<and>
   Execute env_ex executor_busy entry_data event_hello ''root'' = (Blocked, executor_busy)"
  by code_simp

section \<open>Rendering and parsing again\<close>

text \<open>
  The characters of the names of the event flags and of a number in hexadecimal: a token
  made of them is left as it is by \<open>strings.TrimSpace\<close>, and holds no separator.
\<close>

definition tok_char :: "char \<Rightarrow> bool" where
  "tok_char c \<longleftrightarrow> c \<in> set ''ABCDEFGHIJKLMNOPQRSTUVWXYZabcdefghijklmnopqrstuvwxyz0123456789_''"

lemma ws_seqs_table: "list_all (\<lambda>w. \<not> tok_char (hd w) \<and> \<not> tok_char (last w)) ws_seqs"
  by code_simp

lemma ws_seqs_not_tok: "w \<in> set ws_seqs \<Longrightarrow> \<not> tok_char (hd w) \<and> \<not> tok_char (last w)"
  using ws_seqs_table unfolding list_all_iff by blast

lemma ws_prefix_tok: "list_all tok_char t \<Longrightarrow> ws_prefix t = None"
proof (cases t)
  case Nil
  then show ?thesis by (auto simp: ws_prefix_None_iff dest: ws_seqs_length)
next
  case (Cons a as)
  assume "list_all tok_char t"
  with Cons have a: "tok_char a" by simp
  show ?thesis
    unfolding ws_prefix_None_iff
  proof (intro ballI notI)
    fix w assume w: "w \<in> set ws_seqs" "prefix w t"
    from w(1) have "w \<noteq> []" using ws_seqs_length by fastforce
    with w(2) Cons have "hd w = a" by (cases w) auto
    with a ws_seqs_not_tok [OF w(1)] show False by simp
  qed
qed

lemma ws_suffix_tok: "list_all tok_char t \<Longrightarrow> ws_suffix t = None"
proof (cases "t = []")
  case True
  then show ?thesis by (auto simp: ws_suffix_None_iff dest: ws_seqs_length)
next
  case False
  assume "list_all tok_char t"
  with False have a: "tok_char (last t)" by (simp add: list_all_iff)
  show ?thesis
    unfolding ws_suffix_None_iff
  proof (intro ballI notI)
    fix w assume w: "w \<in> set ws_seqs" "suffix w t"
    from w(1) have "w \<noteq> []" using ws_seqs_length by fastforce
    with w(2) have "last w = last t" by (auto simp: suffix_def)
    with a ws_seqs_not_tok [OF w(1)] show False by simp
  qed
qed

lemma TrimSpace_tok: "list_all tok_char t \<Longrightarrow> TrimSpace t = t"
  by (simp add: TrimSpace_id ws_prefix_tok ws_suffix_tok)

lemma tok_char_seps:
  "\<not> tok_char (CHR '' '')" "\<not> tok_char (CHR '','')" "\<not> tok_char (CHR ''='')"
  by code_simp+

lemma digit_table:
  "list_all (\<lambda>i. digit_val (''0123456789abcdef'' ! i) = Some (int i) \<and>
                 tok_char (''0123456789abcdef'' ! i)) [0..<16]"
  by code_simp

lemma digit_char_val:
  assumes "0 \<le> d" "d < 16"
  shows "digit_val (digit_char d) = Some d" "tok_char (digit_char d)"
proof -
  from assms have "nat d \<in> set [0..<16]" by simp
  with digit_table have "digit_val (''0123456789abcdef'' ! nat d) = Some (int (nat d)) \<and>
      tok_char (''0123456789abcdef'' ! nat d)"
    unfolding list_all_iff by blast
  with assms(1) show "digit_val (digit_char d) = Some d" "tok_char (digit_char d)"
    by (simp_all add: digit_char_def)
qed

lemma parse_digits_snoc:
  "parse_digits b acc (xs @ [c]) =
     (case parse_digits b acc xs of
        None \<Rightarrow> None
      | Some v \<Rightarrow> (case digit_val c of
                     None \<Rightarrow> None | Some d \<Rightarrow> if b \<le> d then None else Some (v * b + d)))"
  by (induction xs arbitrary: acc) (auto split: option.splits)

lemma digits_of_16:
  "0 \<le> n \<Longrightarrow>
     parse_digits 16 0 (digits_of 16 n) = Some n \<and> list_all tok_char (digits_of 16 n) \<and>
     digits_of 16 n \<noteq> []"
proof (induction "16 :: int" n rule: digits_of.induct)
  case (1 n)
  show ?case
  proof (cases "n < 16")
    case True
    with 1(2) digit_char_val [of n] show ?thesis
      by (subst (1 2 3) digits_of.simps) simp
  next
    case False
    then have d: "0 \<le> n div 16" using 1(2) by auto
    have m: "0 \<le> n mod 16" "n mod 16 < 16" by auto
    from False have "\<not> ((16 :: int) < 2 \<or> n < 16)" by simp
    from 1(1) [OF this d] digit_char_val [OF m] False show ?thesis
      by (subst (1 2 3) digits_of.simps) (simp add: parse_digits_snoc)
  qed
qed

lemma hex_roundtrip: "parseNumericMask (''0x'' @ fmt_x m) = Some m"
proof -
  have "0 \<le> uint m" by simp
  from digits_of_16 [OF this] have "ParseUint32 (digits_of 16 (uint m)) 16 = Some m"
    using uint_lt2p [of m] by (simp add: ParseUint32_def)
  then show ?thesis by (simp add: parseNumericMask_def fmt_x_def)
qed

lemma tok_char_0x: "tok_char (CHR ''0'')" "tok_char (CHR ''x'')"
  by code_simp+

lemma hex_chars: "list_all tok_char (''0x'' @ fmt_x m)"
  using digits_of_16 [of "uint m"] by (simp add: fmt_x_def tok_char_0x)

primrec or_list :: "32 word list \<Rightarrow> 32 word" where
  "or_list [] = 0"
| "or_list (v # vs) = v OR or_list vs"

definition good_tok :: "string \<Rightarrow> 32 word \<Rightarrow> bool" where
  "good_tok t v \<longleftrightarrow>
     t \<noteq> [] \<and> list_all tok_char t \<and>
     (case map_of EventMaskMap t of Some x \<Rightarrow> x = v | None \<Rightarrow> parseNumericMask t = Some v)"

definition flag_ok :: "32 word \<Rightarrow> bool" where
  "flag_ok f \<longleftrightarrow>
     (\<exists>name. map_of ReverseEventMaskMap f = Some name \<and> good_tok name f) \<and>
     (\<forall>m. m AND f \<noteq> 0 \<longrightarrow> m AND f = f)"

definition mask_tokens :: "32 word \<Rightarrow> string list" where
  "mask_tokens m =
     (if m = InAllEvents then [''IN_ALL_EVENTS'']
      else let (parts, res) = MaskToString_loop render_flags m []
           in if res \<noteq> 0 then parts @ [''0x'' @ fmt_x res] else parts)"

definition option_tokens :: "EntryOptions \<Rightarrow> string list" where
  "option_tokens opts =
     (if \<not> NoLoop opts then [''loopable=true''] else []) @
     (if \<not> Recursive opts then [''recursive=false''] else []) @
     (if DotDirs opts then [''dotdirs=true''] else [])"

lemma Contains_tok: "list_all tok_char t \<Longrightarrow> \<not> Contains t ''=''"
  using tok_char_seps(3) by (auto simp: Contains_single list_all_iff)

lemma parseMask_parts_good:
  "good_tok t v \<Longrightarrow> parseMask_parts (t # ts) acc opts = parseMask_parts ts (acc OR v) opts"
  by (auto simp: good_tok_def TrimSpace_tok Contains_tok Let_def split: option.splits)

lemma parseMask_parts_goods:
  "list_all2 good_tok ts vs \<Longrightarrow>
   parseMask_parts (ts @ rest) acc opts = parseMask_parts rest (acc OR or_list vs) opts"
proof (induction ts vs arbitrary: acc rule: list_all2_induct)
  case Nil
  then show ?case by simp
next
  case (Cons t ts v vs)
  have "parseMask_parts ((t # ts) @ rest) acc opts = parseMask_parts (ts @ rest) (acc OR v) opts"
    by (simp add: parseMask_parts_good [OF Cons(1)] del: parseMask_parts.simps)
  also have "\<dots> = parseMask_parts rest ((acc OR v) OR or_list vs) opts"
    by (rule Cons(3))
  finally show ?case by (simp add: or.assoc)
qed

lemma or_list_append: "or_list (xs @ ys) = or_list xs OR or_list ys"
  by (induction xs) (simp_all add: or.assoc)

lemma single_bit:
  fixes m :: "32 word"
  assumes "m AND 2 ^ k \<noteq> 0"
  shows "m AND 2 ^ k = 2 ^ k"
proof -
  from assms obtain n where "bit (m AND 2 ^ k) n"
    by (auto simp: bit_eq_iff)
  then have "bit m k" and "k < 32"
    by (auto simp: bit_and_iff bit_exp_iff)
  then show ?thesis
    by (intro bit_eqI) (auto simp: bit_and_iff bit_exp_iff)
qed

lemma or_and_not:
  fixes m :: "32 word"
  assumes "m AND f = f"
  shows "f OR (m AND NOT f) = m"
proof -
  have "f OR (m AND NOT f) = (f OR m) AND (f OR NOT f)"
    by (simp add: bit.disj_conj_distrib)
  also have "\<dots> = f OR m"
    by simp
  also have "\<dots> = (m AND f) OR m"
    by (simp add: assms)
  also have "\<dots> = m"
    by (simp add: or.commute)
  finally show ?thesis .
qed


lemma flags_table:
  "list_all (\<lambda>f. (case map_of ReverseEventMaskMap f of
                      None \<Rightarrow> False | Some name \<Rightarrow> good_tok name f) \<and>
                   f \<in> set (map (\<lambda>k. 2 ^ k) [0..<32])) render_flags"
  by code_simp

lemma render_flags_ok:
  assumes "f \<in> set render_flags"
  shows "flag_ok f"
proof -
  from assms flags_table
  have a: "case map_of ReverseEventMaskMap f of None \<Rightarrow> False | Some name \<Rightarrow> good_tok name f"
    and b: "f \<in> set (map (\<lambda>k. 2 ^ k) [0..<32])"
    by (simp_all add: list_all_iff)
  from b obtain k where "f = 2 ^ k" by auto
  then have c: "\<forall>m. m AND f \<noteq> 0 \<longrightarrow> m AND f = f"
    by (simp add: single_bit)
  from a obtain name where "map_of ReverseEventMaskMap f = Some name" "good_tok name f"
    by (cases "map_of ReverseEventMaskMap f") simp_all
  with c show ?thesis
    unfolding flag_ok_def by (intro conjI exI [of _ name]) simp_all
qed

lemma MaskToString_loop_inv:
  assumes "\<forall>f \<in> set fs. flag_ok f" "MaskToString_loop fs m parts = (parts', res)"
  shows "\<exists>ns vs. parts' = parts @ ns \<and> list_all2 good_tok ns vs \<and> or_list vs OR res = m"
  using assms
proof (induction fs arbitrary: m parts)
  case Nil
  then have "parts' = parts @ [] \<and> list_all2 good_tok [] [] \<and> or_list [] OR res = m"
    by simp
  then show ?case by blast
next
  case (Cons f fs)
  from Cons.prems(1) have ok: "flag_ok f" and rest: "\<forall>g \<in> set fs. flag_ok g"
    by simp_all
  from ok obtain name where name: "map_of ReverseEventMaskMap f = Some name" "good_tok name f"
    and single: "\<forall>m. m AND f \<noteq> 0 \<longrightarrow> m AND f = f"
    unfolding flag_ok_def by blast
  show ?case
  proof (cases "m AND f = 0")
    case True
    with Cons.prems(2) have "MaskToString_loop fs m parts = (parts', res)"
      by simp
    from Cons.IH [OF rest this] show ?thesis .
  next
    case False
    with Cons.prems(2) name(1)
    have "MaskToString_loop fs (m AND NOT f) (parts @ [name]) = (parts', res)"
      by simp
    from Cons.IH [OF rest this]
    obtain ns vs where h: "parts' = (parts @ [name]) @ ns" "list_all2 good_tok ns vs"
      "or_list vs OR res = m AND NOT f"
      by blast
    from single False have "m AND f = f" by blast
    then have "f OR (m AND NOT f) = m" by (rule or_and_not)
    with h(3) have "or_list (f # vs) OR res = m"
      by (simp add: or.assoc)
    moreover have "parts' = parts @ (name # ns)" using h(1) by simp
    moreover have "list_all2 good_tok (name # ns) (f # vs)" using h(2) name(2) by simp
    ultimately show ?thesis by blast
  qed
qed

lemma keys_table: "list_all (\<lambda>kv. hd (fst kv) = CHR ''I'') EventMaskMap"
  by code_simp

lemma map_of_hex: "map_of EventMaskMap (''0x'' @ h) = None"
proof (rule ccontr)
  assume "map_of EventMaskMap (''0x'' @ h) \<noteq> None"
  then obtain v where "map_of EventMaskMap (''0x'' @ h) = Some v" by auto
  then have "(''0x'' @ h, v) \<in> set EventMaskMap" by (rule map_of_SomeD)
  with keys_table have "hd (fst (''0x'' @ h, v)) = CHR ''I''"
    unfolding list_all_iff by (rule bspec)
  then show False by simp
qed

lemma hex_tok_good: "good_tok (''0x'' @ fmt_x res) res"
  unfolding good_tok_def
  by (simp only: map_of_hex hex_roundtrip hex_chars option.case) simp

lemma all_events_good: "good_tok ''IN_ALL_EVENTS'' InAllEvents"
  by code_simp

lemma mask_tokens_good: "\<exists>vs. list_all2 good_tok (mask_tokens m) vs \<and> or_list vs = m"
proof (cases "m = InAllEvents")
  case True
  have "list_all2 good_tok (mask_tokens m) [InAllEvents] \<and> or_list [InAllEvents] = m"
    using True all_events_good by (simp add: mask_tokens_def)
  then show ?thesis by blast
next
  case False
  obtain parts res where l: "MaskToString_loop render_flags m [] = (parts, res)"
    by (cases "MaskToString_loop render_flags m []") auto
  from MaskToString_loop_inv [OF _ l] render_flags_ok
  obtain ns vs where h: "parts = [] @ ns" "list_all2 good_tok ns vs" "or_list vs OR res = m"
    by blast
  show ?thesis
  proof (cases "res = 0")
    case True
    with False l h have "list_all2 good_tok (mask_tokens m) vs \<and> or_list vs = m"
      by (simp add: mask_tokens_def)
    then show ?thesis by blast
  next
    case nz: False
    have "list_all2 good_tok (ns @ [''0x'' @ fmt_x res]) (vs @ [res])"
      using h(2) hex_tok_good by (simp add: list_all2_appendI)
    with False nz l h have "list_all2 good_tok (mask_tokens m) (vs @ [res]) \<and> or_list (vs @ [res]) = m"
      by (simp add: mask_tokens_def or_list_append)
    then show ?thesis by blast
  qed
qed

lemma mask_tokens_nonempty: "m \<noteq> 0 \<Longrightarrow> mask_tokens m \<noteq> []"
proof
  assume "m \<noteq> 0" "mask_tokens m = []"
  with mask_tokens_good [of m] show False by auto
qed

lemma MaskToString_tokens:
  assumes "Mask e \<noteq> 0"
  shows "MaskToString e = Join (mask_tokens (Mask e)) '',''"
proof (cases "Mask e = InAllEvents")
  case True
  then show ?thesis by (simp add: MaskToString_def mask_tokens_def)
next
  case False
  obtain parts res where l: "MaskToString_loop render_flags (Mask e) [] = (parts, res)"
    by (cases "MaskToString_loop render_flags (Mask e) []") auto
  from mask_tokens_nonempty [OF assms] False l
  have "(if res \<noteq> 0 then parts @ [''0x'' @ fmt_x res] else parts) \<noteq> []"
    by (simp add: mask_tokens_def)
  with False l show ?thesis
    by (simp add: MaskToString_def mask_tokens_def)
qed

lemma ws_multibyte_table:
  "list_all (\<lambda>w. length w = 1 \<or> CHR '' '' \<notin> set w) ws_seqs"
  by code_simp

lemma ws_prefix_line:
  assumes "p \<noteq> []" "ws_prefix p = None"
  shows "ws_prefix (p @ '' '' @ rest) = None"
proof -
  have "\<not> prefix w (p @ '' '' @ rest)" if w: "w \<in> set ws_seqs" for w
  proof
    assume pre: "prefix w (p @ '' '' @ rest)"
    from assms(2) w have np: "\<not> prefix w p" by (simp add: ws_prefix_None_iff)
    from pre np obtain us where us: "w = p @ us" "us \<noteq> []" "prefix us ('' '' @ rest)"
      by (auto simp: prefix_append)
    then have "CHR '' '' \<in> set w" by (cases us) auto
    moreover from us assms(1) have "length w \<noteq> 1" by (cases p; cases us) auto
    ultimately show False using ws_multibyte_table w by (auto simp: list_all_iff)
  qed
  then show ?thesis by (simp add: ws_prefix_None_iff)
qed

lemma ws_suffix_line:
  assumes "c \<noteq> []" "ws_suffix c = None"
  shows "ws_suffix (front @ '' '' @ c) = None"
proof -
  have "\<not> suffix w (front @ '' '' @ c)" if w: "w \<in> set ws_seqs" for w
  proof
    assume suf: "suffix w (front @ '' '' @ c)"
    from assms(2) w have np: "\<not> suffix w c" by (simp add: ws_suffix_None_iff)
    from suf have "suffix w ((front @ '' '') @ c)" by simp
    with np obtain us where us: "w = us @ c" "us \<noteq> []" "suffix us (front @ '' '')"
      unfolding suffix_append by auto
    from us(3) obtain zs where "front @ '' '' = zs @ us" by (auto simp: suffix_def)
    then have "last (front @ '' '') = last (zs @ us)" by simp
    with us(2) have "last us = CHR '' ''" by simp
    with us have "CHR '' '' \<in> set w" by (metis UnCI last_in_set set_append)
    moreover from us assms(1) have "length w \<noteq> 1" by (cases c; cases us) auto
    ultimately show False using ws_multibyte_table w by (auto simp: list_all_iff)
  qed
  then show ?thesis by (simp add: ws_suffix_None_iff)
qed


lemma TrimSpace_line:
  assumes "p \<noteq> []" "ws_prefix p = None" "c \<noteq> []" "ws_suffix c = None"
  shows "TrimSpace (p @ '' '' @ m @ '' '' @ c) = p @ '' '' @ m @ '' '' @ c"
proof -
  have 1: "ws_prefix (p @ '' '' @ m @ '' '' @ c) = None"
    using assms(1,2) by (rule ws_prefix_line)
  have "ws_suffix ((p @ '' '' @ m) @ '' '' @ c) = None"
    using assms(3,4) by (rule ws_suffix_line)
  then have 2: "ws_suffix (p @ '' '' @ m @ '' '' @ c) = None" by simp
  from 1 2 show ?thesis by (rule TrimSpace_id)
qed

lemma option_token_step:
  assumes "Contains t ''=''" "TrimSpace t = t" "parseOption t opts = Inr opts'"
  shows "parseMask_parts (t # ts) acc opts = parseMask_parts ts acc opts'"
  using assms by simp

lemma option_token_facts:
  "Contains ''loopable=true'' ''=''" "TrimSpace ''loopable=true'' = ''loopable=true''"
  "SplitN ''loopable=true'' ''='' 2 = [''loopable'', ''true'']"
  "Contains ''recursive=false'' ''=''" "TrimSpace ''recursive=false'' = ''recursive=false''"
  "SplitN ''recursive=false'' ''='' 2 = [''recursive'', ''false'']"
  "Contains ''dotdirs=true'' ''=''" "TrimSpace ''dotdirs=true'' = ''dotdirs=true''"
  "SplitN ''dotdirs=true'' ''='' 2 = [''dotdirs'', ''true'']"
  "TrimSpace ''loopable'' = ''loopable''" "TrimSpace ''recursive'' = ''recursive''"
  "TrimSpace ''dotdirs'' = ''dotdirs''" "TrimSpace ''true'' = ''true''"
  "TrimSpace ''false'' = ''false''"
  by code_simp+

lemma parseOption_tokens:
  "parseOption ''loopable=true'' opts = Inr (opts\<lparr>NoLoop := False\<rparr>)"
  "parseOption ''recursive=false'' opts = Inr (opts\<lparr>Recursive := False\<rparr>)"
  "parseOption ''dotdirs=true'' opts = Inr (opts\<lparr>DotDirs := True\<rparr>)"
  by (simp_all add: parseOption_def option_token_facts parseBool_def Let_def numeral_2_eq_2)

lemma option_tokens_parse:
  "parseMask_parts (option_tokens opts) acc default_options = Inr (acc, opts)"
proof -
  have L: "parseMask_parts (''loopable=true'' # ts) a os = parseMask_parts ts a (os\<lparr>NoLoop := False\<rparr>)"
    for ts a os
    by (rule option_token_step) (simp_all only: option_token_facts parseOption_tokens)
  have R: "parseMask_parts (''recursive=false'' # ts) a os = parseMask_parts ts a (os\<lparr>Recursive := False\<rparr>)"
    for ts a os
    by (rule option_token_step) (simp_all only: option_token_facts parseOption_tokens)
  have D: "parseMask_parts (''dotdirs=true'' # ts) a os = parseMask_parts ts a (os\<lparr>DotDirs := True\<rparr>)"
    for ts a os
    by (rule option_token_step) (simp_all only: option_token_facts parseOption_tokens)
  show ?thesis
    by (cases opts) (simp add: option_tokens_def L R D default_options_def del: parseMask_parts.simps(2))
qed

lemma ParseEntry_shape:
  assumes "ParseEntry line n = Inr (Some r)"
  shows "Path r \<noteq> []" "ws_prefix (Path r) = None" "CHR '' '' \<notin> set (Path r)"
    "\<not> prefix ''#'' (Path r)" "Command r \<noteq> []" "ws_suffix (Command r) = None"
    "Mask r \<noteq> 0" "LineNumber r = n"
    "parseMask_parts (mask_tokens (Mask r) @ option_tokens (Options r)) 0 default_options
       = Inr (Mask r, Options r)"
proof -
  from assms obtain p m c where d: "TrimSpace line = p @ '' '' @ m @ '' '' @ c"
    "CHR '' '' \<notin> set p" "CHR '' '' \<notin> set m" "\<not> prefix ''#'' (TrimSpace line)"
    "parseMask m default_options = Inr (Mask r, Options r)"
    "Path r = p" "Command r = c" "LineNumber r = n"
    by (rule ParseEntry_SomeD)
  have wp: "ws_prefix (p @ '' '' @ m @ '' '' @ c) = None"
    and ws: "ws_suffix (p @ '' '' @ m @ '' '' @ c) = None"
    using TrimSpace_no_ws [of line] d(1) by simp_all
  show "Path r \<noteq> []"
  proof
    assume "Path r = []"
    with d(6) wp have "ws_prefix ('' '' @ m @ '' '' @ c) = None" by simp
    moreover have "'' '' \<in> set ws_seqs" by code_simp
    ultimately show False unfolding ws_prefix_None_iff by auto
  qed
  show "ws_prefix (Path r) = None"
    using wp d(6) by (auto intro: ws_prefix_of_prefix)
  show "CHR '' '' \<notin> set (Path r)" using d(2,6) by simp
  show "\<not> prefix ''#'' (Path r)"
    using d(1,4,6) by (auto simp: prefix_def)
  show "Command r \<noteq> []"
  proof
    assume "Command r = []"
    with d(7) ws have "ws_suffix ((p @ '' '' @ m) @ '' '') = None" by simp
    moreover have "'' '' \<in> set ws_seqs" by code_simp
    ultimately show False unfolding ws_suffix_None_iff by (auto simp: suffix_def)
  qed
  show "ws_suffix (Command r) = None"
  proof (rule ws_suffix_of_suffix [OF ws])
    show "suffix (Command r) (p @ '' '' @ m @ '' '' @ c)"
      using d(7) by (auto simp: suffix_def intro: exI [of _ "p @ '' '' @ m @ '' ''"])
  qed
  from d(5) show m: "Mask r \<noteq> 0"
    by (auto simp: parseMask_def split: sum.splits prod.splits if_splits)
  show "LineNumber r = n" by (rule d(8))
  obtain vs where vs: "list_all2 good_tok (mask_tokens (Mask r)) vs" "or_list vs = Mask r"
    using mask_tokens_good [of "Mask r"] by blast
  have "parseMask_parts (mask_tokens (Mask r) @ option_tokens (Options r)) 0 default_options
          = parseMask_parts (option_tokens (Options r)) (0 OR or_list vs) default_options"
    using vs(1) by (rule parseMask_parts_goods)
  then show "parseMask_parts (mask_tokens (Mask r) @ option_tokens (Options r)) 0 default_options
       = Inr (Mask r, Options r)"
    by (simp add: vs(2) option_tokens_parse)
qed


lemma Join_append:
  "xs \<noteq> [] \<Longrightarrow> ys \<noteq> [] \<Longrightarrow> Join (xs @ ys) sep = Join xs sep @ sep @ Join ys sep"
proof (induction xs sep rule: Join.induct)
  case (1 sep)
  then show ?case by simp
next
  case (2 x sep)
  then show ?case by (cases ys) simp_all
next
  case (3 x y ys' sep)
  then show ?case by simp
qed

lemma set_Join: "set (Join ts sep) \<subseteq> (\<Union>t \<in> set ts. set t) \<union> set sep"
  by (induction ts sep rule: Join.induct) auto

lemma String_tokens:
  assumes "Mask e \<noteq> 0"
  shows "String e = Path e @ '' '' @
           Join (mask_tokens (Mask e) @ option_tokens (Options e)) '','' @ '' '' @ Command e"
proof (cases "option_tokens (Options e) = []")
  case True
  then show ?thesis
    by (simp add: String_def Let_def MaskToString_tokens [OF assms] option_tokens_def)
next
  case False
  have "Join (mask_tokens (Mask e) @ option_tokens (Options e)) '','' =
          Join (mask_tokens (Mask e)) '','' @ '','' @ Join (option_tokens (Options e)) '',''"
    using mask_tokens_nonempty [OF assms] False by (rule Join_append)
  moreover have "String e = Path e @ '' '' @
      (MaskToString e @ '','' @ Join (option_tokens (Options e)) '','') @ '' '' @ Command e"
    using False unfolding String_def Let_def option_tokens_def by simp
  ultimately show ?thesis
    by (simp add: MaskToString_tokens [OF assms])
qed

lemma good_tok_chars: "good_tok t v \<Longrightarrow> CHR '','' \<notin> set t \<and> CHR '' '' \<notin> set t"
  using tok_char_seps by (auto simp: good_tok_def list_all_iff)

lemma mask_tokens_chars:
  assumes "t \<in> set (mask_tokens m)"
  shows "CHR '','' \<notin> set t \<and> CHR '' '' \<notin> set t"
proof -
  obtain vs where "list_all2 good_tok (mask_tokens m) vs"
    using mask_tokens_good [of m] by blast
  with assms obtain v where "good_tok t v"
    by (auto simp: list_all2_conv_all_nth in_set_conv_nth)
  then show ?thesis by (rule good_tok_chars)
qed

lemma option_tokens_chars:
  "t \<in> set (option_tokens opts) \<Longrightarrow> CHR '','' \<notin> set t \<and> CHR '' '' \<notin> set t"
  by (auto simp: option_tokens_def split: if_splits)

lemma prefix_hash: "p \<noteq> [] \<Longrightarrow> prefix ''#'' (p @ rest) \<Longrightarrow> prefix ''#'' p"
  by (cases p) auto

lemma render_parse:
  assumes "ParseEntry x n = Inr (Some r)"
  shows "ParseEntry (String r) k =
           Inr (Some \<lparr>Path = Path r, Mask = Mask r, Command = Command r,
                      Options = Options r, LineNumber = k\<rparr>)"
proof -
  note sh = ParseEntry_shape [OF assms]
  let ?ts = "mask_tokens (Mask r) @ option_tokens (Options r)"
  let ?M = "Join ?ts '',''"
  have S: "String r = Path r @ '' '' @ ?M @ '' '' @ Command r"
    using sh(7) by (rule String_tokens)
  have ne: "?ts \<noteq> []" using mask_tokens_nonempty [OF sh(7)] by simp
  have ch: "\<forall>t \<in> set ?ts. CHR '','' \<notin> set t"
    and sp: "\<forall>t \<in> set ?ts. CHR '' '' \<notin> set t"
    using mask_tokens_chars option_tokens_chars by auto
  have "Split ?M '','' = ?ts"
    using ne ch by (rule Split_Join)
  then have pm: "parseMask ?M default_options = Inr (Mask r, Options r)"
    using sh(7,9) by (simp add: parseMask_def)
  have nsp: "CHR '' '' \<notin> set ?M"
    using set_Join [of ?ts "'',''"] sp by auto
  have T: "TrimSpace (String r) = Path r @ '' '' @ ?M @ '' '' @ Command r"
    unfolding S using sh(1,2,5,6) by (rule TrimSpace_line)
  have H: "\<not> prefix ''#'' (TrimSpace (String r))"
    unfolding T using prefix_hash [OF sh(1)] sh(4) by blast
  from ParseEntry_fields [OF T sh(3) nsp H, of k] pm show ?thesis
    by simp
qed

text \<open>Example input: a line with spaces around it, options, and bits that have no name.\<close>

definition line_rt :: string where
  "line_rt = ''  /tmp IN_CREATE,loopable=true,recursive=false,0x1f000   echo test  ''"

definition rule_rt :: IncronEntry where
  "rule_rt = \<lparr>Path = ''/tmp'', Mask = 0x1f100, Command = ''  echo test'',
              Options = \<lparr>NoLoop = False, Recursive = False, DotDirs = False\<rparr>,
              LineNumber = 3\<rparr>"

text \<open>
  C9. Every line \<open>x\<close> that \<open>ParseEntry\<close> parses into a Rule \<open>r\<close> is parsed again from its
  rendering: \<open>ParseEntry\<close> of \<open>String r\<close>, at any line number \<open>k\<close>, succeeds with the Rule
  \<open>r\<close> whose line number is \<open>k\<close>; at the line number of \<open>x\<close> it returns what it returned
  for \<open>x\<close>.
\<close>

theorem render_parse_roundtrip:
  assumes "ParseEntry x n = Inr (Some r)"
  shows "ParseEntry (String r) k = Inr (Some (r\<lparr>LineNumber := k\<rparr>)) \<and>
         ParseEntry (String r) n = ParseEntry x n"
proof -
  have "ParseEntry (String r) k = Inr (Some (r\<lparr>LineNumber := k\<rparr>))" for k
    using render_parse [OF assms, of k] by simp
  moreover have "r\<lparr>LineNumber := n\<rparr> = r"
    using ParseEntry_shape(8) [OF assms] by simp
  ultimately show ?thesis using assms by simp
qed

theorem render_parse_roundtrip_witness:
  "ParseEntry line_rt 3 = Inr (Some rule_rt) \<and>
   String rule_rt =
     ''/tmp IN_CREATE,IN_UNMOUNT,IN_Q_OVERFLOW,IN_IGNORED,0x11000,loopable=true,recursive=false   echo test'' \<and>
   ParseEntry (String rule_rt) 8 = Inr (Some (rule_rt\<lparr>LineNumber := 8\<rparr>)) \<and>
   ParseEntry (String rule_rt) 3 = ParseEntry line_rt 3"
proof -
  have p: "ParseEntry line_rt 3 = Inr (Some rule_rt)"
    by code_simp
  have s: "String rule_rt =
     ''/tmp IN_CREATE,IN_UNMOUNT,IN_Q_OVERFLOW,IN_IGNORED,0x11000,loopable=true,recursive=false   echo test''"
    by code_simp
  from render_parse_roundtrip [OF p, of 8] p s show ?thesis
    by simp
qed

end
